theory Spec2Isabelle
  imports Main "HOL-Library.Char_ord" "HOL-Library.List_Lexorder" "HOL-Library.AList"
begin

section \<open>The schema compiler of tools/generate\_types\_from\_api\_json.py\<close>

text \<open>
  The development embeds the type generator of the repository: the path classifier
  (\<open>parse_field_path\<close>), the identifier normaliser (\<open>to_snake_case\<close>), the registry of
  generated class names (\<open>qualify_model_name\<close>), the model graph builder
  (\<open>create_nested_structure\<close>), the emitters and the argument check of \<open>main\<close>.

  Python strings are lists of \<^typ>\<open>char\<close>, one \<^typ>\<open>char\<close> per code point, so the model
  covers the strings over the code points U+0000 to U+00FF. Python exceptions are values
  of the type \<open>py_error\<close>; a function that can raise returns \<open>py_error + 'a\<close>.
\<close>

subsection \<open>Strings\<close>

datatype py_error = KeyError string | IndexError | ValueError string

text \<open>\<^verbatim>\<open>s.split(sep)\<close> for a one-character separator: never the empty list.\<close>

fun split_sep :: "char \<Rightarrow> string \<Rightarrow> string list" where
  "split_sep d [] = [[]]"
| "split_sep d (c # cs) =
     (if c = d then [] # split_sep d cs
      else (case split_sep d cs of
              [] \<Rightarrow> [[c]]
            | w # ws \<Rightarrow> (c # w) # ws))"

text \<open>\<^verbatim>\<open>sep.join(xs)\<close>.\<close>

fun join :: "string \<Rightarrow> string list \<Rightarrow> string" where
  "join sep [] = []"
| "join sep [x] = x"
| "join sep (x # y # ys) = x @ sep @ join sep (y # ys)"

subsection \<open>The path classifier\<close>

text \<open>
  \<open>parse_field_path\<close> returns \<open>(path_parts, field_name, is_array_item, is_simple_array)\<close>.
  When every segment of the path is the marker \<open>N\<close>, \<open>clean_parts\<close> is empty and
  \<^verbatim>\<open>clean_parts[-1]\<close> raises IndexError.
\<close>

definition parse_field_path :: "string \<Rightarrow> py_error + (string list \<times> string \<times> bool \<times> bool)" where
  "parse_field_path field_name =
     (let parts = split_sep CHR ''.'' field_name;
          is_simple_array = (2 \<le> length parts \<and> last parts = ''N'');
          is_array_item = (if 1 < length parts then ''N'' \<in> set (butlast parts) else False);
          clean_parts = filter (\<lambda>part. part \<noteq> ''N'') parts
      in if length clean_parts = 1 then Inr ([], hd clean_parts, False, False)
         else if clean_parts = [] then Inl IndexError
         else Inr (butlast clean_parts, last clean_parts, is_array_item, is_simple_array))"

subsection \<open>The identifier normaliser\<close>

text \<open>
  The character classes of the three regular expressions of \<open>to_snake_case\<close>:
  \<^verbatim>\<open>[A-Z]\<close>, \<^verbatim>\<open>[a-z]\<close> and \<^verbatim>\<open>[0-9]\<close> are ASCII ranges. \<^verbatim>\<open>str.lower()\<close> maps, among
  the code points below 256, the letters A to Z and the Latin-1 capitals U+00C0 to U+00DE
  (without the multiplication sign U+00D7) to the code point 32 above, and nothing else.
\<close>

definition is_upper :: "char \<Rightarrow> bool" where
  "is_upper c = (CHR ''A'' \<le> c \<and> c \<le> CHR ''Z'')"

definition is_lower :: "char \<Rightarrow> bool" where
  "is_lower c = (CHR ''a'' \<le> c \<and> c \<le> CHR ''z'')"

definition is_digit :: "char \<Rightarrow> bool" where
  "is_digit c = (CHR ''0'' \<le> c \<and> c \<le> CHR ''9'')"

definition lower_char :: "char \<Rightarrow> char" where
  "lower_char c =
     (let n = (of_char c :: nat)
      in if (65 \<le> n \<and> n \<le> 90) \<or> (192 \<le> n \<and> n \<le> 222 \<and> n \<noteq> 215)
         then char_of (n + 32) else c)"

definition lower :: "string \<Rightarrow> string" where
  "lower s = map lower_char s"

text \<open>
  \<^verbatim>\<open>re.sub(r"([A-Z]+)([A-Z][a-z])", r"\1_\2", name)\<close>. The scan goes from left to right. At
  a position where a run of \<open>m\<close> capitals starts, the greedy \<^verbatim>\<open>[A-Z]+\<close> can only succeed
  with \<open>m - 1\<close> of them: the next pattern character needs one more capital and the last
  one a lower-case letter, which after fewer capitals would be a capital. So there is a
  match exactly when \<open>2 \<le> m\<close> and the run is followed by a lower-case letter; the
  separator goes before the last capital of the run and the scan resumes after the
  lower-case letter. Without a match the character is copied and the scan moves on by one.
\<close>

function sub_acronym :: "string \<Rightarrow> string" where
  "sub_acronym [] = []"
| "sub_acronym (c # cs) =
     (let run = takeWhile is_upper (c # cs);
          rest = dropWhile is_upper (c # cs)
      in case rest of
           [] \<Rightarrow> c # sub_acronym cs
         | l # rest' \<Rightarrow>
             if 2 \<le> length run \<and> is_lower l
             then butlast run @ ''_'' @ [last run, l] @ sub_acronym rest'
             else c # sub_acronym cs)"
  by pat_completeness auto
termination
proof (relation "measure length")
  fix c cs run rest l rest'
  assume "rest = dropWhile is_upper (c # cs)" "rest = l # rest'"
  then have "length (l # rest') \<le> length (c # cs)"
    using length_dropWhile_le [of is_upper "c # cs"] by simp
  then show "(rest', c # cs) \<in> measure length" by simp
qed auto

text \<open>\<^verbatim>\<open>re.sub(r"([a-z0-9])([A-Z])", r"\1_\2", step_one)\<close>.\<close>

fun sub_camel :: "string \<Rightarrow> string" where
  "sub_camel (a # b # cs) =
     (if (is_lower a \<or> is_digit a) \<and> is_upper b
      then a # CHR ''_'' # b # sub_camel cs
      else a # sub_camel (b # cs))"
| "sub_camel cs = cs"

text \<open>\<^verbatim>\<open>re.sub(r"__+", "_", step_two)\<close>: a maximal run of two or more underscores becomes one.\<close>

function sub_underscores :: "string \<Rightarrow> string" where
  "sub_underscores [] = []"
| "sub_underscores (c # cs) =
     (if c = CHR ''_'' \<and> cs \<noteq> [] \<and> hd cs = CHR ''_''
      then CHR ''_'' # sub_underscores (dropWhile (\<lambda>x. x = CHR ''_'') cs)
      else c # sub_underscores cs)"
  by pat_completeness auto
termination
  by (relation "measure length")
     (auto simp: less_Suc_eq_le length_dropWhile_le)

definition to_snake_case :: "string \<Rightarrow> string" where
  "to_snake_case name =
     (if name = [] then name
      else lower (sub_underscores (sub_camel (sub_acronym name))))"

subsection \<open>Docstring sanitising\<close>

text \<open>
  \<^verbatim>\<open>s.replace(old, new)\<close>: occurrences are replaced from left to right, without overlap.
  With an empty \<open>old\<close> Python puts \<open>new\<close> before every character and at the end.
\<close>

function replace :: "string \<Rightarrow> string \<Rightarrow> string \<Rightarrow> string" where
  "replace old new [] = (if old = [] then new else [])"
| "replace old new (c # cs) =
     (if old = [] then new @ c # replace old new cs
      else if take (length old) (c # cs) = old
           then new @ replace old new (drop (length old) (c # cs))
           else c # replace old new cs)"
  by pat_completeness auto
termination
  by (relation "measure (\<lambda>(old, new, s). length s)") auto

text \<open>
  \<^verbatim>\<open>s.split()\<close> splits at runs of white space and drops empty words. Below U+0100 the
  white-space characters of Python are the code points 9 to 13, 28 to 32, 133 and 160.
\<close>

definition isspace :: "char \<Rightarrow> bool" where
  "isspace c = ((of_char c :: nat) \<in> {9, 10, 11, 12, 13, 28, 29, 30, 31, 32, 133, 160})"

function split_ws :: "string \<Rightarrow> string list" where
  "split_ws [] = []"
| "split_ws (c # cs) =
     (if isspace c then split_ws cs
      else takeWhile (\<lambda>x. \<not> isspace x) (c # cs) # split_ws (dropWhile (\<lambda>x. \<not> isspace x) cs))"
  by pat_completeness auto
termination
  by (relation "measure length")
     (auto simp: less_Suc_eq_le length_dropWhile_le)

text \<open>The double quote is U+0022, the backslash U+005C, line feed U+000A, carriage return U+000D.\<close>

definition sanitize_docstring :: "string \<Rightarrow> string" where
  "sanitize_docstring text =
     (if text = [] then []
      else let sanitized = replace [CHR 0x22, CHR 0x22, CHR 0x22]
                             [CHR 0x5C, CHR 0x22, CHR 0x5C, CHR 0x22, CHR 0x5C, CHR 0x22] text;
               sanitized = replace [CHR 0x0A] '' '' (replace [CHR 0x0D] '' '' sanitized);
               sanitized = join '' '' (split_ws sanitized)
           in sanitized)"

text \<open>Three adjacent double quotes somewhere in a string.\<close>

fun has_triple_quote :: "string \<Rightarrow> bool" where
  "has_triple_quote (a # b # c # cs) =
     ((a = CHR 0x22 \<and> b = CHR 0x22 \<and> c = CHR 0x22) \<or> has_triple_quote (b # c # cs))"
| "has_triple_quote cs = False"

subsection \<open>The registry of generated class names\<close>

text \<open>
  \<open>generated_class_names\<close> is a Python set of strings. The code only adds to it and tests
  membership, so it is kept as a list without duplicates; the order of the list is never
  observed. \<open>str_nat\<close> is \<^verbatim>\<open>str(index)\<close> for a natural number: its decimal digits.
\<close>

definition digit_char :: "nat \<Rightarrow> char" where
  "digit_char d = char_of (48 + d)"

function str_nat :: "nat \<Rightarrow> string" where
  "str_nat n = (if n < 10 then [digit_char n] else str_nat (n div 10) @ [digit_char (n mod 10)])"
  by pat_completeness auto
termination
  by (relation "measure id") auto

declare str_nat.simps [simp del]

definition register_class_name :: "string list \<Rightarrow> string \<Rightarrow> string list" where
  "register_class_name generated_class_names name = List.insert name generated_class_names"

text \<open>
  The loop of \<open>qualify_model_name\<close> tries \<open>prefix\<close>, \<open>prefix2\<close>, \<open>prefix3\<close>, ... until a
  candidate is not in the registry. It ends because the candidates are pairwise different
  (\<open>str_nat\<close> is injective) and the registry is finite: the number of indices from
  \<open>index\<close> on whose candidate is registered goes down with every turn.
\<close>

lemma str_nat_not_Nil: "str_nat n \<noteq> []"
  by (subst str_nat.simps) simp

lemma digit_char_inj: "a < 10 \<Longrightarrow> b < 10 \<Longrightarrow> digit_char a = digit_char b \<Longrightarrow> a = b"
proof -
  assume a: "a < 10" and b: "b < 10" and e: "digit_char a = digit_char b"
  from e have "(of_char (digit_char a) :: nat) = of_char (digit_char b)" by simp
  with a b show "a = b" by (simp add: digit_char_def)
qed

lemma str_nat_inj: "str_nat n = str_nat m \<Longrightarrow> n = m"
proof (induction n arbitrary: m rule: str_nat.induct)
  case (1 n)
  show ?case
  proof (cases "n < 10")
    case True
    show ?thesis
    proof (cases "m < 10")
      case m: True
      with True "1.prems" show ?thesis
        by (subst (asm) (1 2) str_nat.simps) (simp add: digit_char_inj)
    next
      case m: False
      with True "1.prems" str_nat_not_Nil [of "m div 10"] show ?thesis
        by (subst (asm) (1 2) str_nat.simps) simp
    qed
  next
    case False
    show ?thesis
    proof (cases "m < 10")
      case m: True
      with False "1.prems" str_nat_not_Nil [of "n div 10"] show ?thesis
        by (subst (asm) (1 2) str_nat.simps) simp
    next
      case m: False
      from False m "1.prems"
      have e: "str_nat (n div 10) = str_nat (m div 10)"
        and d: "digit_char (n mod 10) = digit_char (m mod 10)"
        by (subst (asm) (1 2) str_nat.simps, simp)+
      from "1.IH" [OF False e] have "n div 10 = m div 10" .
      moreover from d have "n mod 10 = m mod 10"
        by (auto intro: digit_char_inj)
      ultimately show ?thesis
        by (metis div_mult_mod_eq)
    qed
  qed
qed

lemma finite_candidates: "finite {j. index \<le> j \<and> prefix @ str_nat j \<in> set gs}"
proof -
  have "inj (\<lambda>j. prefix @ str_nat j)"
    by (rule injI) (simp add: str_nat_inj)
  then have "finite ((\<lambda>j. prefix @ str_nat j) -` set gs)"
    by (rule finite_vimageI [rotated]) simp
  then show ?thesis
    by (rule rev_finite_subset) auto
qed

function qualify_loop :: "string list \<Rightarrow> string \<Rightarrow> nat \<Rightarrow> string \<Rightarrow> string" where
  "qualify_loop generated_class_names prefix index candidate =
     (if candidate \<in> set generated_class_names
      then qualify_loop generated_class_names prefix (index + 1) (prefix @ str_nat index)
      else candidate)"
  by pat_completeness auto
termination
proof (relation "measure (\<lambda>(gs, prefix, index, candidate).
          card {j. index \<le> j \<and> prefix @ str_nat j \<in> set gs}
          + (if candidate \<in> set gs then 1 else 0))")
  fix gs :: "string list" and prefix :: string and index :: nat and candidate :: string
  assume "candidate \<in> set gs"
  let ?A = "{j. index \<le> j \<and> prefix @ str_nat j \<in> set gs}"
  let ?B = "{j. index + 1 \<le> j \<and> prefix @ str_nat j \<in> set gs}"
  have fin: "finite ?A" by (rule finite_candidates)
  have "card ?B + (if prefix @ str_nat index \<in> set gs then 1 else 0) \<le> card ?A"
  proof (cases "prefix @ str_nat index \<in> set gs")
    case True
    then have "?A = insert index ?B" by (auto simp: Suc_le_eq le_less)
    moreover have "index \<notin> ?B" by simp
    moreover have "finite ?B" by (rule finite_candidates)
    ultimately show ?thesis by simp
  next
    case False
    have "?B \<subseteq> ?A" by auto
    with fin have "card ?B \<le> card ?A" by (rule card_mono)
    with False show ?thesis by simp
  qed
  with \<open>candidate \<in> set gs\<close>
  show "((gs, prefix, index + 1, prefix @ str_nat index), (gs, prefix, index, candidate))
        \<in> measure (\<lambda>(gs, prefix, index, candidate).
          card {j. index \<le> j \<and> prefix @ str_nat j \<in> set gs}
          + (if candidate \<in> set gs then 1 else 0))"
    by simp
qed simp

declare qualify_loop.simps [simp del]

definition qualify_model_name :: "string list \<Rightarrow> string \<Rightarrow> string \<Rightarrow> string \<times> string list" where
  "qualify_model_name generated_class_names base_name action =
     (let candidate = qualify_loop generated_class_names (base_name @ ''For'' @ action) 2
                        (base_name @ ''For'' @ action)
      in (candidate, List.insert candidate generated_class_names))"

text \<open>
  A compiler run calls \<open>register_class_name\<close> and \<open>qualify_model_name\<close> in some order on the
  one registry; \<open>run_calls\<close> performs such a sequence and collects the names that
  \<open>qualify_model_name\<close> returned, in order, with the final registry.
\<close>

datatype registry_call = Register string | Qualify string string

fun run_calls :: "string list \<Rightarrow> registry_call list \<Rightarrow> string list \<times> string list" where
  "run_calls gs [] = ([], gs)"
| "run_calls gs (Register name # calls) = run_calls (register_class_name gs name) calls"
| "run_calls gs (Qualify base_name action # calls) =
     (let (name, gs1) = qualify_model_name gs base_name action;
          (names, gs2) = run_calls gs1 calls
      in (name # names, gs2))"

subsection \<open>Type mapping, fields and models\<close>

text \<open>
  \<open>TypeMapper.TYPE_MAPPING\<close> with its default, the classes \<open>FieldInfo\<close> and \<open>NestedModel\<close>
  with their emitters. \<open>NestedModel.children\<close> is left out: nothing in the generator calls
  \<open>add_child\<close>, so it stays empty and is never read. The field list of a model is
  \<open>model_fields\<close> and its name \<open>model_name\<close>. An input row (a JSON object) is the record
  \<open>param\<close>; a key that is absent is \<open>None\<close>, and \<open>ParameterType_ref\<close> is the value of
  \<^verbatim>\<open>param.get("ParameterType", {}).get("$ref", "")\<close> when that path is present.
\<close>

definition TYPE_MAPPING :: "(int \<times> string) list" where
  "TYPE_MAPPING =
     [(1, ''str''), (2, ''int''), (3, ''float''), (4, ''int''),
      (5, ''float''), (6, ''bool''), (7, ''dict''), (8, ''list'')]"

definition get_python_type :: "int \<Rightarrow> string" where
  "get_python_type type_id = (case map_of TYPE_MAPPING type_id of None \<Rightarrow> ''str'' | Some t \<Rightarrow> t)"

record FieldInfo =
  name :: string
  python_name :: string
  type_str :: string
  is_required :: bool
  is_array :: bool
  description :: string

definition to_field_definition :: "FieldInfo \<Rightarrow> string" where
  "to_field_definition f =
     (let final_type = (if is_array f then ''list['' @ type_str f @ '']'' else type_str f);
          (final_type, default_value) =
             (if \<not> is_required f then (''Optional['' @ final_type @ '']'', ''default=None'')
              else (final_type, ''...''));
          field_def = ''Field('' @ default_value @ '', alias='' @ [CHR 0x22] @ name f @ [CHR 0x22] @ '')''
      in ''    '' @ python_name f @ '': '' @ final_type @ '' = '' @ field_def)"

record NestedModel =
  model_name :: string
  model_fields :: "FieldInfo list"

definition add_field :: "NestedModel \<Rightarrow> FieldInfo \<Rightarrow> NestedModel" where
  "add_field m field = m\<lparr>model_fields := model_fields m @ [field]\<rparr>"

definition to_class_definition :: "NestedModel \<Rightarrow> string \<Rightarrow> string" where
  "to_class_definition m base_class_name =
     (let lines = [''class '' @ model_name m @ ''('' @ base_class_name @ ''):''];
          lines = (if model_fields m \<noteq> [] then lines @ map to_field_definition (model_fields m)
                   else lines @ [''    pass''])
      in join [CHR 0x0A] lines)"

record param =
  Name :: "string option"
  Type :: "int option"
  IsRequired :: "int option"
  IsArray :: "int option"
  Description :: "string option"
  ParameterType_ref :: "string option"

subsection \<open>Base names of nested models\<close>

text \<open>
  \<open>strip_suffixes\<close> is the loop of \<open>_strip_generic_suffix\<close> over its tuple of suffixes: the
  first suffix that the name ends with, and is longer than, is cut off.
\<close>

definition endswith :: "string \<Rightarrow> string \<Rightarrow> bool" where
  "endswith s suffix = (length suffix \<le> length s \<and> drop (length s - length suffix) s = suffix)"

fun strip_suffixes :: "string list \<Rightarrow> string \<Rightarrow> string" where
  "strip_suffixes [] nm = nm"
| "strip_suffixes (suffix # suffixes) nm =
     (if endswith nm suffix \<and> length nm > length suffix
      then take (length nm - length suffix) nm
      else strip_suffixes suffixes nm)"

definition strip_generic_suffix :: "string \<Rightarrow> string" where
  "strip_generic_suffix nm =
     strip_suffixes [''Configuration'', ''Config'', ''Info'', ''List'', ''Item'', ''Items''] nm"

definition build_nested_base_name :: "string \<Rightarrow> bool \<Rightarrow> string" where
  "build_nested_base_name path is_array_object =
     (let parts = map strip_generic_suffix (filter (\<lambda>p. p \<noteq> []) (split_sep CHR ''.'' path));
          core = (if parts = [] then ''NestedModel''
                  else if length parts = 1 then hd parts
                  else concat parts);
          core = (if is_array_object then core @ ''Item'' else core)
      in core)"

subsection \<open>The model graph builder\<close>

text \<open>
  \<open>fold_err\<close> is a \<^verbatim>\<open>for\<close> loop whose body can raise: the first error ends it.
\<close>

fun fold_err :: "('a \<Rightarrow> 's \<Rightarrow> py_error + 's) \<Rightarrow> 'a list \<Rightarrow> 's \<Rightarrow> py_error + 's" where
  "fold_err f [] s = Inr s"
| "fold_err f (x # xs) s = (case f x s of Inl e \<Rightarrow> Inl e | Inr s' \<Rightarrow> fold_err f xs s')"

text \<open>
  The first pass of \<open>create_nested_structure\<close>. \<open>array_fields\<close> and \<open>normal_fields\<close> are
  \<^verbatim>\<open>defaultdict(set)\<close>: association lists in insertion order (the order in which
  \<open>array_objects\<close> is later traversed), with \<open>dd_add\<close> for \<^verbatim>\<open>d[k].add(v)\<close>.
  \<open>nested_object_paths\<close> is a set, only ever tested for membership and sorted.
  A row without the key \<open>Name\<close> raises KeyError at \<^verbatim>\<open>param["Name"]\<close>.
\<close>

record discovery =
  array_fields :: "(string \<times> string list) list"
  normal_fields :: "(string \<times> string list) list"
  nested_object_paths :: "string list"

definition dd_add :: "string \<Rightarrow> string \<Rightarrow> (string \<times> string list) list \<Rightarrow> (string \<times> string list) list" where
  "dd_add k v d =
     AList.update k (List.insert v (case map_of d k of None \<Rightarrow> [] | Some vs \<Rightarrow> vs)) d"

definition discover_step :: "param \<Rightarrow> discovery \<Rightarrow> py_error + discovery" where
  "discover_step p d =
     (case Name p of
        None \<Rightarrow> Inl (KeyError ''Name'')
      | Some field_name \<Rightarrow>
          (case parse_field_path field_name of
             Inl e \<Rightarrow> Inl e
           | Inr (path_parts, final_name, is_array_item, is_simple_array) \<Rightarrow>
               if 0 < length path_parts then
                 let path_str = join ''.'' path_parts;
                     d = (if is_array_item
                          then d\<lparr>array_fields := dd_add path_str final_name (array_fields d)\<rparr>
                          else d\<lparr>normal_fields := dd_add path_str final_name (normal_fields d)\<rparr>)
                 in Inr (d\<lparr>nested_object_paths :=
                            fold (\<lambda>i paths. List.insert (join ''.'' (take i path_parts)) paths)
                              [1 ..< length path_parts + 1] (nested_object_paths d)\<rparr>)
               else Inr d))"

definition array_objects_of :: "discovery \<Rightarrow> (string \<times> string list) list" where
  "array_objects_of d =
     filter (\<lambda>(path, leaves). map_of (normal_fields d) path = None) (array_fields d)"

text \<open>
  The state of the rest of the function. \<open>path_models\<close> and \<open>class_models\<close> hold the same
  \<open>NestedModel\<close> objects under different keys, and the fields added through
  \<open>path_models\<close> are read back through \<open>class_models\<close>: the objects live in \<open>heap\<close>, and
  both dictionaries map their keys to positions in it. The dictionaries are association
  lists in insertion order; \<open>AList.update\<close> replaces the value of a present key in place and
  appends an absent one, as a Python \<open>dict\<close> does. \<open>registry\<close> is
  \<open>self.generated_class_names\<close>, \<open>root\<close> the root model, \<open>root_refs\<close> the dictionary of
  root references with the entries \<open>(type, is_array, is_required)\<close>.
  The two \<^verbatim>\<open>print\<close> blocks for the action \<open>CreateMCPToolset\<close> only write to the standard
  output and are left out.
\<close>

record builder =
  heap :: "NestedModel list"
  path_models :: "(string \<times> nat) list"
  class_models :: "(string \<times> nat) list"
  path_class_names :: "(string \<times> string) list"
  registry :: "string list"
  root :: NestedModel
  root_refs :: "(string \<times> string \<times> bool \<times> bool) list"

definition new_model :: "string \<Rightarrow> string \<Rightarrow> string \<Rightarrow> builder \<Rightarrow> builder" where
  "new_model path base_name action b =
     (let (cls, gs) = qualify_model_name (registry b) base_name action;
          ref = length (heap b)
      in b\<lparr>heap := heap b @ [\<lparr>model_name = cls, model_fields = []\<rparr>],
            path_models := AList.update path ref (path_models b),
            path_class_names := AList.update path cls (path_class_names b),
            class_models := AList.update cls ref (class_models b),
            registry := gs\<rparr>)"

definition plain_model_step :: "(string \<times> string list) list \<Rightarrow> string \<Rightarrow> string \<Rightarrow> builder \<Rightarrow> builder" where
  "plain_model_step array_objs action path b =
     (if map_of array_objs path = None
      then new_model path (build_nested_base_name path False) action b
      else b)"

definition item_model_step :: "string list \<Rightarrow> string \<Rightarrow> string \<Rightarrow> builder \<Rightarrow> builder" where
  "item_model_step paths action array_path b =
     (let parts = split_sep CHR ''.'' array_path
      in if length parts = 1 \<or> array_path \<in> set paths
         then new_model array_path (build_nested_base_name array_path True) action b
         else b)"

text \<open>
  \<open>add_field_at ref field h\<close> is \<open>add_field\<close> on the object at position \<open>ref\<close>;
  \<open>existing m py_name\<close> is the list \<^verbatim>\<open>[f for f in m.fields if f.python_name == py_name]\<close>.
\<close>

definition add_field_at :: "nat \<Rightarrow> FieldInfo \<Rightarrow> NestedModel list \<Rightarrow> NestedModel list" where
  "add_field_at ref field h = h[ref := add_field (h ! ref) field]"

definition existing :: "NestedModel \<Rightarrow> string \<Rightarrow> FieldInfo list" where
  "existing m py_name = filter (\<lambda>f. python_name f = py_name) (model_fields m)"

definition wire_step :: "(string \<times> string list) list \<Rightarrow> string \<Rightarrow> builder \<Rightarrow> builder" where
  "wire_step array_objs full_path b =
     (let parts = split_sep CHR ''.'' full_path
      in if length parts < 2 then b
         else
           let parent_path = join ''.'' (butlast parts);
               child_name = last parts
           in case map_of (path_models b) parent_path of
                None \<Rightarrow> b
              | Some ref \<Rightarrow>
                  let parent_model = heap b ! ref;
                      child_python_name = to_snake_case child_name
                  in if existing parent_model child_python_name \<noteq> [] then b
                     else
                       let child_type = (case map_of (path_class_names b) full_path of
                                           None \<Rightarrow> child_name | Some cls \<Rightarrow> cls);
                           is_array_object = (map_of array_objs full_path \<noteq> None);
                           field = \<lparr>name = child_name, python_name = child_python_name,
                                    type_str = child_type, is_required = False,
                                    is_array = is_array_object, description = []\<rparr>
                       in b\<lparr>heap := add_field_at ref field (heap b)\<rparr>)"

text \<open>
  The second pass. \<open>add_root_ref\<close> is \<^verbatim>\<open>if n not in root_refs: root_refs[n] = {...}\<close>.
  \<open>leaf_field p final_name arr\<close> is the \<open>FieldInfo\<close> that every branch builds for the row
  \<open>p\<close>, with \<open>is_array = arr\<close>. In the simple-array branch the
  \<^verbatim>\<open>elif len(path_parts) == 0\<close> of the source is kept as it is.
\<close>

definition add_root_ref :: "string \<Rightarrow> string \<times> bool \<times> bool \<Rightarrow> builder \<Rightarrow> builder" where
  "add_root_ref ref_name ref_info b =
     (if map_of (root_refs b) ref_name = None
      then b\<lparr>root_refs := root_refs b @ [(ref_name, ref_info)]\<rparr>
      else b)"

definition leaf_field :: "param \<Rightarrow> string \<Rightarrow> bool \<Rightarrow> FieldInfo" where
  "leaf_field p final_name arr =
     (let python_type = get_python_type (case Type p of None \<Rightarrow> 1 | Some t \<Rightarrow> t);
          required = ((case IsRequired p of None \<Rightarrow> 0 | Some v \<Rightarrow> v) = 1);
          descr = (case Description p of None \<Rightarrow> [] | Some t \<Rightarrow> t)
      in \<lparr>name = final_name, python_name = to_snake_case final_name,
          type_str = python_type, is_required = required,
          is_array = arr, description = descr\<rparr>)"

definition fill_step :: "param \<Rightarrow> builder \<Rightarrow> py_error + builder" where
  "fill_step p b =
     (case Name p of
        None \<Rightarrow> Inl (KeyError ''Name'')
      | Some field_name \<Rightarrow>
          (case parse_field_path field_name of
             Inl e \<Rightarrow> Inl e
           | Inr (path_parts, final_name, is_array_item, is_simple_array) \<Rightarrow>
               let py_name = to_snake_case final_name;
                   field = leaf_field p final_name
               in Inr
                 (if length path_parts = 0 then
                    b\<lparr>root := add_field (root b) (field False)\<rparr>
                  else if is_simple_array then
                    (let parent_path = join ''.'' path_parts
                     in case map_of (path_models b) parent_path of
                          Some ref \<Rightarrow>
                            if existing (heap b ! ref) py_name = []
                            then b\<lparr>heap := add_field_at ref (field True) (heap b)\<rparr>
                            else b
                        | None \<Rightarrow>
                            if length path_parts = 0
                            then b\<lparr>root := add_field (root b) (field True)\<rparr>
                            else b)
                  else if is_array_item then
                    (let array_path = join ''.'' path_parts
                     in case map_of (path_models b) array_path of
                          Some ref \<Rightarrow>
                            let b = b\<lparr>heap := add_field_at ref (field False) (heap b)\<rparr>
                            in if length path_parts = 1 then
                                 let array_name = hd path_parts;
                                     ref_type = (case map_of (path_class_names b) array_path of
                                                   None \<Rightarrow> array_name @ ''Item'' | Some cls \<Rightarrow> cls)
                                 in add_root_ref array_name (ref_type, True, False) b
                               else b
                        | None \<Rightarrow> b)
                  else
                    (let full_path = join ''.'' path_parts;
                         b = (case map_of (path_models b) full_path of
                                Some ref \<Rightarrow> b\<lparr>heap := add_field_at ref (field False) (heap b)\<rparr>
                              | None \<Rightarrow> b);
                         root_level_name = hd path_parts;
                         ref_type = (case map_of (path_class_names b) root_level_name of
                                       None \<Rightarrow> root_level_name | Some cls \<Rightarrow> cls)
                     in add_root_ref root_level_name (ref_type, False, False) b))))"

definition root_ref_step :: "string \<times> string \<times> bool \<times> bool \<Rightarrow> builder \<Rightarrow> builder" where
  "root_ref_step entry b =
     (case entry of (ref_name, ref_type, ref_is_array, ref_is_required) \<Rightarrow>
        let py_name = to_snake_case ref_name
        in if existing (root b) py_name = []
           then b\<lparr>root := add_field (root b)
                   \<lparr>name = ref_name, python_name = py_name, type_str = ref_type,
                    is_required = ref_is_required, is_array = ref_is_array, description = []\<rparr>\<rparr>
           else b)"

text \<open>
  \<open>create_nested_structure_locals\<close> runs the function and returns its local variables at
  the \<^verbatim>\<open>return\<close>; \<open>create_nested_structure\<close> returns the root model, \<open>class_models\<close> (which
  becomes \<open>self.nested_models\<close>) with the objects read from the heap, and the registry.
\<close>

record locals =
  discovered :: discovery
  array_objects :: "(string \<times> string list) list"
  built :: builder

definition create_nested_structure_locals ::
    "string list \<Rightarrow> param list \<Rightarrow> string \<Rightarrow> py_error + locals" where
  "create_nested_structure_locals gs parameters action =
     (case fold_err discover_step parameters
             \<lparr>array_fields = [], normal_fields = [], nested_object_paths = []\<rparr> of
        Inl e \<Rightarrow> Inl e
      | Inr d \<Rightarrow>
          let array_objs = array_objects_of d;
              b = \<lparr>heap = [], path_models = [], class_models = [], path_class_names = [],
                   registry = gs,
                   root = \<lparr>model_name = ''Root'', model_fields = []\<rparr>, root_refs = []\<rparr>;
              b = fold (plain_model_step array_objs action) (sort (nested_object_paths d)) b;
              b = fold (item_model_step (nested_object_paths d) action) (map fst array_objs) b;
              b = fold (wire_step array_objs) (sort (nested_object_paths d)) b
          in case fold_err fill_step parameters b of
               Inl e \<Rightarrow> Inl e
             | Inr b \<Rightarrow>
                 Inr \<lparr>discovered = d, array_objects = array_objs,
                      built = fold root_ref_step (root_refs b) b\<rparr>)"

definition nested_models_of :: "builder \<Rightarrow> (string \<times> NestedModel) list" where
  "nested_models_of b = map (\<lambda>(cls, ref). (cls, heap b ! ref)) (class_models b)"

definition create_nested_structure ::
    "string list \<Rightarrow> param list \<Rightarrow> string
       \<Rightarrow> py_error + (NestedModel \<times> (string \<times> NestedModel) list \<times> string list)" where
  "create_nested_structure gs parameters action =
     (case create_nested_structure_locals gs parameters action of
        Inl e \<Rightarrow> Inl e
      | Inr l \<Rightarrow> Inr (root (built l), nested_models_of (built l), registry (built l)))"

subsection \<open>Request and response models\<close>

text \<open>
  The generator object, with the attributes that the functions below read or write.
  \<open>request_models\<close> is \<open>generate_request_model\<close> up to its list \<open>sections\<close>, before the
  models are rendered: the nested models in the order of \<open>self.nested_models\<close>, then the
  root model under its class name.
\<close>

record generator =
  nested_models :: "(string \<times> NestedModel) list"
  generated_class_names :: "string list"
  base_model_name :: string
  base_model_doc :: string

definition init_generator :: "string \<Rightarrow> string option \<Rightarrow> generator" where
  "init_generator base doc =
     \<lparr>nested_models = [],
      generated_class_names = register_class_name [] base,
      base_model_name = base,
      base_model_doc = (case doc of
                          None \<Rightarrow> ''AgentKit auto-generated base model''
                        | Some t \<Rightarrow> if t = [] then ''AgentKit auto-generated base model'' else t)\<rparr>"

definition request_models ::
    "generator \<Rightarrow> string \<Rightarrow> param list \<Rightarrow> py_error + (NestedModel list \<times> generator)" where
  "request_models g action parameters =
     (let class_name = action @ ''Request'';
          gs = register_class_name (generated_class_names g) class_name
      in case create_nested_structure gs parameters action of
           Inl e \<Rightarrow> Inl e
         | Inr (root_model, nested, gs') \<Rightarrow>
             Inr (map snd nested @ [root_model\<lparr>model_name := class_name\<rparr>],
                  g\<lparr>nested_models := nested, generated_class_names := gs'\<rparr>))"

definition generate_request_model ::
    "generator \<Rightarrow> string \<Rightarrow> param list \<Rightarrow> py_error + (string \<times> generator)" where
  "generate_request_model g action parameters =
     (case request_models g action parameters of
        Inl e \<Rightarrow> Inl e
      | Inr (models, g') \<Rightarrow>
          Inr (join [CHR 0x0A, CHR 0x0A]
                 (map (\<lambda>m. to_class_definition m (base_model_name g)) models), g'))"

text \<open>
  \<open>response_field_line\<close> is the body of the loop of \<open>generate_response_model\<close>: the line
  emitted for one row. A missing \<open>Name\<close> is read as the empty string
  (\<^verbatim>\<open>param.get("Name", "")\<close>).
\<close>

definition response_field_line :: "param \<Rightarrow> string" where
  "response_field_line p =
     (let nm = (case Name p of None \<Rightarrow> [] | Some n \<Rightarrow> n);
          type_id = (case Type p of None \<Rightarrow> 1 | Some t \<Rightarrow> t);
          is_arr = ((case IsArray p of None \<Rightarrow> 0 | Some v \<Rightarrow> v) = 1);
          param_type_ref = (case ParameterType_ref p of None \<Rightarrow> [] | Some r \<Rightarrow> r);
          py_name = to_snake_case nm;
          python_type = (if param_type_ref \<noteq> [] then param_type_ref else get_python_type type_id);
          python_type = (if is_arr then ''list['' @ python_type @ '']'' else python_type);
          python_type = ''Optional['' @ python_type @ '']'';
          field_def = ''Field(default=None, alias='' @ [CHR 0x22] @ nm @ [CHR 0x22] @ '')''
      in ''    '' @ py_name @ '': '' @ python_type @ '' = '' @ field_def)"

definition generate_response_model :: "generator \<Rightarrow> string \<Rightarrow> param list \<Rightarrow> string \<times> generator" where
  "generate_response_model g action parameters =
     (let class_name = action @ ''Response''
      in if class_name \<in> set (generated_class_names g) then ([], g)
         else
           let g = g\<lparr>generated_class_names := register_class_name (generated_class_names g) class_name\<rparr>;
               lines = [''class '' @ class_name @ ''('' @ base_model_name g @ ''):''];
               lines = lines @ map response_field_line parameters;
               lines = (if parameters = [] then lines @ [''    pass''] else lines)
           in (join [CHR 0x0A] lines, g))"

subsection \<open>The client arguments of the driver\<close>

text \<open>
  The part of \<open>main\<close> after the type definitions have been written. An option that was
  not given is \<open>None\<close>, and Python takes \<open>None\<close> and the empty string as false.
  \<open>missing_client_args\<close> is the list \<open>missing\<close>. The message of the ValueError is a fixed
  text, which lies outside the character range of this model, followed by the missing
  flags joined with a comma and a space; the error value here carries the joined flags.
  When all three options are given, the client module is generated from them:
  \<open>ClientGenerated\<close> carries the class name, the description, the service name and the
  types module passed to \<open>generate_client_module\<close>.
\<close>

record args =
  client_output :: "string option"
  client_class_name :: "string option"
  client_description :: "string option"
  service_name :: "string option"
  types_module :: "string option"
  base_class_import :: string
  base_client_class :: string

definition truthy :: "string option \<Rightarrow> bool" where
  "truthy v = (case v of None \<Rightarrow> False | Some s \<Rightarrow> s \<noteq> [])"

definition missing_client_args :: "args \<Rightarrow> string list" where
  "missing_client_args a =
     map fst (filter (\<lambda>(flag, v). \<not> truthy v)
       [(''--client-class-name'', client_class_name a),
        (''--service-name'', service_name a),
        (''--types-module'', types_module a)])"

datatype client_stage = ClientSkipped | ClientGenerated string string string string

definition main_client :: "args \<Rightarrow> py_error + client_stage" where
  "main_client a =
     (if truthy (client_output a) then
        let required_client_args = [client_class_name a, service_name a, types_module a]
        in if \<not> list_all truthy required_client_args
           then Inl (ValueError (join '', '' (missing_client_args a)))
           else Inr (ClientGenerated (the (client_class_name a))
                       (case client_description a of None \<Rightarrow> [] | Some t \<Rightarrow> t)
                       (the (service_name a)) (the (types_module a)))
      else Inr ClientSkipped)"

subsection \<open>Vocabulary for the properties of the builder\<close>

text \<open>
  \<open>classified r\<close> is what the path classifier says about a row with a non-empty ownership
  path: the joined ownership path, the leaf and the two flags. A row is an array-item leaf
  under \<open>P\<close> when its ownership path is \<open>P\<close> and \<open>is_array_item\<close> holds, a plain leaf under
  \<open>P\<close> when its ownership path is \<open>P\<close> and \<open>is_array_item\<close> does not hold: the first pass
  records the former in \<open>array_fields\<close> and the latter in \<open>normal_fields\<close>.
  \<open>node_of b P\<close> is the object \<open>path_models[P]\<close>.
\<close>

definition classified :: "param \<Rightarrow> (string \<times> string \<times> bool \<times> bool) option" where
  "classified r =
     (case Name r of
        None \<Rightarrow> None
      | Some field_name \<Rightarrow>
          (case parse_field_path field_name of
             Inl e \<Rightarrow> None
           | Inr (path_parts, final_name, is_array_item, is_simple_array) \<Rightarrow>
               if path_parts = [] then None
               else Some (join ''.'' path_parts, final_name, is_array_item, is_simple_array)))"

definition array_leaf_under :: "string \<Rightarrow> param \<Rightarrow> bool" where
  "array_leaf_under P r =
     (case classified r of None \<Rightarrow> False | Some (Q, leaf, ai, sa) \<Rightarrow> Q = P \<and> ai)"

definition plain_leaf_under :: "string \<Rightarrow> param \<Rightarrow> bool" where
  "plain_leaf_under P r =
     (case classified r of None \<Rightarrow> False | Some (Q, leaf, ai, sa) \<Rightarrow> Q = P \<and> \<not> ai)"

definition starts_with :: "string \<Rightarrow> string \<Rightarrow> bool" where
  "starts_with pre s = (take (length pre) s = pre)"

definition node_of :: "builder \<Rightarrow> string \<Rightarrow> NestedModel option" where
  "node_of b P =
     (case map_of (path_models b) P of
        None \<Rightarrow> None
      | Some ref \<Rightarrow> if ref < length (heap b) then Some (heap b ! ref) else None)"

text \<open>
  \<open>models_ok\<close> is the invariant of model creation: every model name on the heap is
  registered, and every path with a model points into the heap, is listed in
  \<open>class_models\<close> under its model name, and has a name built from the base name of the
  path, with the \<open>Item\<close> suffix exactly for the array-object paths. \<open>extends b b'\<close> says
  that \<open>b'\<close> has the dictionaries, the registry and the model names of \<open>b\<close> and that every
  model kept all its fields.
\<close>

definition models_ok :: "(string \<times> string list) list \<Rightarrow> string \<Rightarrow> builder \<Rightarrow> bool" where
  "models_ok array_objs action b \<longleftrightarrow>
     (\<forall>i < length (heap b). model_name (heap b ! i) \<in> set (registry b)) \<and>
     (\<forall>P ref. map_of (path_models b) P = Some ref \<longrightarrow>
        ref < length (heap b) \<and>
        map_of (class_models b) (model_name (heap b ! ref)) = Some ref \<and>
        starts_with (build_nested_base_name P (map_of array_objs P \<noteq> None) @ ''For'' @ action)
          (model_name (heap b ! ref)))"

definition extends :: "builder \<Rightarrow> builder \<Rightarrow> bool" where
  "extends b b' \<longleftrightarrow>
     path_models b' = path_models b \<and> class_models b' = class_models b \<and>
     registry b' = registry b \<and> length (heap b') = length (heap b) \<and>
     (\<forall>i. model_name (heap b' ! i) = model_name (heap b ! i)) \<and>
     (\<forall>i. set (model_fields (heap b ! i)) \<subseteq> set (model_fields (heap b' ! i)))"

section \<open>Properties of the path classifier\<close>

lemma split_sep_nonempty: "split_sep d s \<noteq> []"
  by (induction s) (auto split: list.splits)






text \<open>
  C3: the classifier on the two paths of the round-trip property. \<open>A.B.C\<close> gives the
  ownership path \<open>[A, B]\<close> and the leaf \<open>C\<close>. \<open>X.N\<close> gives the root path and the leaf
  \<open>X\<close>, but with \<open>is_simple_array\<close> false: one segment is left once the marker is removed,
  and that branch returns both flags false.
\<close>

theorem parse_field_path_round_trip:
  "parse_field_path ''A.B.C'' = Inr ([''A'', ''B''], ''C'', False, False) \<and>
   parse_field_path ''X.N'' = Inr ([], ''X'', False, False)"
  by (simp add: parse_field_path_def)

section \<open>The identifier normaliser is idempotent\<close>

lemma is_upper_iff: "is_upper c \<longleftrightarrow> 65 \<le> (of_char c :: nat) \<and> (of_char c :: nat) \<le> 90"
  by (simp add: is_upper_def less_eq_char_def)

lemma of_char_lt_256: "(of_char c :: nat) < 256"
  using of_char_mod_256 [where ?'a = nat, of c] by (metis mod_less_divisor zero_less_numeral)

lemma not_upper_lower_char: "\<not> is_upper (lower_char c)"
  using of_char_lt_256 [of c]
  by (auto simp: is_upper_iff lower_char_def Let_def)

lemma lower_char_idem: "lower_char (lower_char c) = lower_char c"
  using of_char_lt_256 [of c]
  by (auto simp: lower_char_def Let_def)


lemma lower_char_underscore: "lower_char c = CHR ''_'' \<longleftrightarrow> c = CHR ''_''"
proof -
  have "(of_char (lower_char c) :: nat) = 95 \<longleftrightarrow> (of_char c :: nat) = 95"
    using of_char_lt_256 [of c] by (auto simp: lower_char_def Let_def)
  moreover have "\<And>d. d = CHR ''_'' \<longleftrightarrow> (of_char d :: nat) = 95"
  proof -
    fix d :: char
    have "(of_char (CHR ''_'') :: nat) = 95" by simp
    then show "d = CHR ''_'' \<longleftrightarrow> (of_char d :: nat) = 95"
      by (metis of_char_eq_iff)
  qed
  ultimately show ?thesis by simp
qed

fun no_double_underscore :: "string \<Rightarrow> bool" where
  "no_double_underscore (a # b # cs) =
     (\<not> (a = CHR ''_'' \<and> b = CHR ''_'') \<and> no_double_underscore (b # cs))"
| "no_double_underscore cs = True"

lemma sub_acronym_no_upper: "\<forall>c\<in>set s. \<not> is_upper c \<Longrightarrow> sub_acronym s = s"
  by (induction s) (auto simp: Let_def split: list.splits)

lemma sub_camel_no_upper: "\<forall>c\<in>set s. \<not> is_upper c \<Longrightarrow> sub_camel s = s"
  by (induction s rule: sub_camel.induct) auto

lemma sub_underscores_Nil_iff: "sub_underscores s = [] \<longleftrightarrow> s = []"
  by (cases s) auto

lemma hd_sub_underscores: "hd (sub_underscores s) = hd s"
  by (cases s) auto

lemma no_double_underscore_Cons:
  "no_double_underscore (a # s) \<longleftrightarrow>
     (s = [] \<or> (\<not> (a = CHR ''_'' \<and> hd s = CHR ''_'') \<and> no_double_underscore s))"
  by (cases s) auto

lemma hd_dropWhile_underscore:
  "dropWhile (\<lambda>x. x = CHR ''_'') cs \<noteq> [] \<Longrightarrow> hd (dropWhile (\<lambda>x. x = CHR ''_'') cs) \<noteq> CHR ''_''"
  using hd_dropWhile [of "\<lambda>x. x = CHR ''_''" cs] by simp

lemma no_double_underscore_sub: "no_double_underscore (sub_underscores s)"
proof (induction s rule: sub_underscores.induct)
  case 1
  show ?case by simp
next
  case (2 c cs)
  show ?case
  proof (cases "c = CHR ''_'' \<and> cs \<noteq> [] \<and> hd cs = CHR ''_''")
    case True
    with 2 show ?thesis
      using hd_dropWhile_underscore [of cs]
      by (auto simp: no_double_underscore_Cons sub_underscores_Nil_iff hd_sub_underscores
               simp del: no_double_underscore.simps)
  next
    case False
    with 2 show ?thesis
      by (auto simp: no_double_underscore_Cons sub_underscores_Nil_iff hd_sub_underscores
               simp del: no_double_underscore.simps)
  qed
qed

lemma sub_underscores_fixed: "no_double_underscore s \<Longrightarrow> sub_underscores s = s"
  by (induction s rule: no_double_underscore.induct) auto

lemma no_double_underscore_lower:
  "no_double_underscore s \<Longrightarrow> no_double_underscore (lower s)"
  by (induction s rule: no_double_underscore.induct)
     (auto simp: lower_def lower_char_underscore)

lemma lower_idem: "lower (lower s) = lower s"
  by (simp add: lower_def lower_char_idem)

lemma lower_no_upper: "\<forall>c\<in>set (lower s). \<not> is_upper c"
  by (simp add: lower_def not_upper_lower_char)

lemma lower_Nil_iff: "lower s = [] \<longleftrightarrow> s = []"
  by (simp add: lower_def)

text \<open>
  C7: \<open>to_snake_case\<close> is a function, and applying it to its own output changes nothing:
  the output has no capital letter, so the first two substitutions find no match, it has
  no two adjacent underscores, so the third finds none, and lower-casing it again is the
  identity.
\<close>

theorem to_snake_case_idempotent:
  "to_snake_case (to_snake_case s) = to_snake_case s"
proof (cases "s = []")
  case True
  then show ?thesis by (simp add: to_snake_case_def)
next
  case False
  define u where "u = sub_underscores (sub_camel (sub_acronym s))"
  have t: "to_snake_case s = lower u"
    using False by (simp add: to_snake_case_def u_def)
  have nu: "\<forall>c\<in>set (lower u). \<not> is_upper c"
    by (rule lower_no_upper)
  have "no_double_underscore u"
    unfolding u_def by (rule no_double_underscore_sub)
  then have nd: "no_double_underscore (lower u)"
    by (rule no_double_underscore_lower)
  have "sub_underscores (sub_camel (sub_acronym (lower u))) = lower u"
    using nu nd by (simp add: sub_acronym_no_upper sub_camel_no_upper sub_underscores_fixed)
  then have "to_snake_case (lower u) = lower u"
    by (simp add: to_snake_case_def lower_idem)
  with t show ?thesis by simp
qed

section \<open>Docstring sanitising\<close>

text \<open>
  C10: on a text of five double quotes the first three are replaced by three escaped
  quotes and the last two are copied, so the result ends in an (escaped) quote followed
  by two quotes: three adjacent double-quote characters.
\<close>

theorem sanitize_docstring_five_quotes:
  "sanitize_docstring [CHR 0x22, CHR 0x22, CHR 0x22, CHR 0x22, CHR 0x22] =
     [CHR 0x5C, CHR 0x22, CHR 0x5C, CHR 0x22, CHR 0x5C, CHR 0x22, CHR 0x22, CHR 0x22] \<and>
   has_triple_quote (sanitize_docstring [CHR 0x22, CHR 0x22, CHR 0x22, CHR 0x22, CHR 0x22])"
  by code_simp

section \<open>Generated names are never reused\<close>

lemma qualify_loop_fresh: "qualify_loop gs prefix index candidate \<notin> set gs"
  by (induction gs prefix index candidate rule: qualify_loop.induct)
     (subst qualify_loop.simps, simp)

lemma qualify_model_name_fresh:
  "qualify_model_name gs base action = (nm, gs') \<Longrightarrow>
     nm \<notin> set gs \<and> set gs' = insert nm (set gs)"
  by (auto simp: qualify_model_name_def Let_def qualify_loop_fresh)

lemma run_calls_names:
  "run_calls gs calls = (names, gs') \<Longrightarrow>
     distinct names \<and> set names \<inter> set gs = {} \<and> set gs \<union> set names \<subseteq> set gs'"
proof (induction gs calls arbitrary: names gs' rule: run_calls.induct)
  case (1 gs)
  then show ?case by simp
next
  case (2 gs nm calls)
  from "2.prems" have "run_calls (register_class_name gs nm) calls = (names, gs')" by simp
  from "2.IH" [OF this] show ?case
    by (auto simp: register_class_name_def)
next
  case (3 gs base_name action calls)
  obtain nm gs1 where q: "qualify_model_name gs base_name action = (nm, gs1)"
    by (cases "qualify_model_name gs base_name action")
  obtain ns gs2 where r: "run_calls gs1 calls = (ns, gs2)"
    by (cases "run_calls gs1 calls")
  from "3.prems" q r have eq: "names = nm # ns" "gs' = gs2" by simp_all
  from qualify_model_name_fresh [OF q]
  have f: "nm \<notin> set gs" "set gs1 = insert nm (set gs)" by simp_all
  from "3.IH" [OF q [symmetric] refl r]
  have ih: "distinct ns" "set ns \<inter> set gs1 = {}" "set gs1 \<union> set ns \<subseteq> set gs2" by simp_all
  from f ih eq show ?case by auto
qed

text \<open>
  C5: a call of \<open>qualify_model_name\<close> returns a name that is not in the registry and leaves
  it in the registry, \<open>register_class_name\<close> and \<open>qualify_model_name\<close> only add to the
  registry, and over any sequence of calls the names returned are pairwise different and
  different from every name registered at the start.
\<close>

theorem generated_names_never_reused:
  "(qualify_model_name gs base action = (nm, gs1) \<longrightarrow>
      nm \<notin> set gs \<and> nm \<in> set gs1 \<and> set gs \<subseteq> set gs1) \<and>
   set gs \<subseteq> set (register_class_name gs n) \<and>
   (run_calls gs calls = (names, gs2) \<longrightarrow>
      distinct names \<and> set names \<inter> set gs = {} \<and> set gs \<union> set names \<subseteq> set gs2)"
  using qualify_model_name_fresh [of gs base action nm gs1] run_calls_names [of gs calls names gs2]
  by (auto simp: register_class_name_def)

theorem generated_names_never_reused_witness:
  "qualify_model_name [''AgentKitBaseModel'', ''EnvsForA''] ''Envs'' ''A''
     = (''EnvsForA2'', [''EnvsForA2'', ''AgentKitBaseModel'', ''EnvsForA'']) \<and>
   run_calls [''AgentKitBaseModel'', ''EnvsForA'']
       [Qualify ''Envs'' ''A'', Register ''ARequest'', Qualify ''Envs'' ''A'']
     = ([''EnvsForA2'', ''EnvsForA3''],
        [''EnvsForA3'', ''ARequest'', ''EnvsForA2'', ''AgentKitBaseModel'', ''EnvsForA'']) \<and>
   ''EnvsForA2'' \<notin> set [''AgentKitBaseModel'', ''EnvsForA''] \<and>
   distinct [''EnvsForA2'', ''EnvsForA3'']"
  using generated_names_never_reused [where gs = "[''AgentKitBaseModel'', ''EnvsForA'']"
      and base = "''Envs''" and action = "''A''" and nm = "''EnvsForA2''"
      and ?gs1.0 = "[''EnvsForA2'', ''AgentKitBaseModel'', ''EnvsForA'']" and n = "''ARequest''"
      and calls = "[Qualify ''Envs'' ''A'', Register ''ARequest'', Qualify ''Envs'' ''A'']"
      and names = "[''EnvsForA2'', ''EnvsForA3'']"
      and ?gs2.0 = "[''EnvsForA3'', ''ARequest'', ''EnvsForA2'', ''AgentKitBaseModel'', ''EnvsForA'']"]
  by code_simp

section \<open>The CreateAgent scenario\<close>

text \<open>
  C6: on a fresh generator with the default base class, the action \<open>CreateAgent\<close> with the
  rows \<open>Name\<close> (type 1, required), \<open>Envs.N.Key\<close> and \<open>Envs.N.Value\<close> (type 1, optional)
  yields exactly two models: the item model \<open>EnvsItemForCreateAgent\<close> with the optional
  scalar string fields \<open>key\<close> and \<open>value\<close>, and the root \<open>CreateAgentRequest\<close> with the
  required scalar string field \<open>name\<close> and the optional array field \<open>envs\<close> of the item
  type. The second equation is the text that \<open>generate_request_model\<close> returns.
\<close>

theorem create_agent_scenario:
  "request_models (init_generator ''AgentKitBaseModel'' None) ''CreateAgent''
     [\<lparr>Name = Some ''Name'', Type = Some 1, IsRequired = Some 1, IsArray = None,
       Description = None, ParameterType_ref = None\<rparr>,
      \<lparr>Name = Some ''Envs.N.Key'', Type = Some 1, IsRequired = Some 0, IsArray = None,
       Description = None, ParameterType_ref = None\<rparr>,
      \<lparr>Name = Some ''Envs.N.Value'', Type = Some 1, IsRequired = Some 0, IsArray = None,
       Description = None, ParameterType_ref = None\<rparr>]
   = Inr ([\<lparr>model_name = ''EnvsItemForCreateAgent'',
            model_fields =
              [\<lparr>name = ''Key'', python_name = ''key'', type_str = ''str'',
                is_required = False, is_array = False, description = []\<rparr>,
               \<lparr>name = ''Value'', python_name = ''value'', type_str = ''str'',
                is_required = False, is_array = False, description = []\<rparr>]\<rparr>,
           \<lparr>model_name = ''CreateAgentRequest'',
            model_fields =
              [\<lparr>name = ''Name'', python_name = ''name'', type_str = ''str'',
                is_required = True, is_array = False, description = []\<rparr>,
               \<lparr>name = ''Envs'', python_name = ''envs'', type_str = ''EnvsItemForCreateAgent'',
                is_required = False, is_array = True, description = []\<rparr>]\<rparr>],
          \<lparr>nested_models =
             [(''EnvsItemForCreateAgent'',
               \<lparr>model_name = ''EnvsItemForCreateAgent'',
                model_fields =
                  [\<lparr>name = ''Key'', python_name = ''key'', type_str = ''str'',
                    is_required = False, is_array = False, description = []\<rparr>,
                   \<lparr>name = ''Value'', python_name = ''value'', type_str = ''str'',
                    is_required = False, is_array = False, description = []\<rparr>]\<rparr>)],
           generated_class_names =
             [''EnvsItemForCreateAgent'', ''CreateAgentRequest'', ''AgentKitBaseModel''],
           base_model_name = ''AgentKitBaseModel'',
           base_model_doc = ''AgentKit auto-generated base model''\<rparr>) \<and>
   map_sum id fst
     (generate_request_model (init_generator ''AgentKitBaseModel'' None) ''CreateAgent''
       [\<lparr>Name = Some ''Name'', Type = Some 1, IsRequired = Some 1, IsArray = None,
         Description = None, ParameterType_ref = None\<rparr>,
        \<lparr>Name = Some ''Envs.N.Key'', Type = Some 1, IsRequired = Some 0, IsArray = None,
         Description = None, ParameterType_ref = None\<rparr>,
        \<lparr>Name = Some ''Envs.N.Value'', Type = Some 1, IsRequired = Some 0, IsArray = None,
         Description = None, ParameterType_ref = None\<rparr>])
   = Inr (''class EnvsItemForCreateAgent(AgentKitBaseModel):'' @ [CHR 0x0A] @
          ''    key: Optional[str] = Field(default=None, alias='' @ [CHR 0x22] @ ''Key'' @ [CHR 0x22] @ '')'' @ [CHR 0x0A] @
          ''    value: Optional[str] = Field(default=None, alias='' @ [CHR 0x22] @ ''Value'' @ [CHR 0x22] @ '')'' @ [CHR 0x0A, CHR 0x0A] @
          ''class CreateAgentRequest(AgentKitBaseModel):'' @ [CHR 0x0A] @
          ''    name: str = Field(..., alias='' @ [CHR 0x22] @ ''Name'' @ [CHR 0x22] @ '')'' @ [CHR 0x0A] @
          ''    envs: Optional[list[EnvsItemForCreateAgent]] = Field(default=None, alias='' @ [CHR 0x22] @ ''Envs'' @ [CHR 0x22] @ '')'')"
  by code_simp

section \<open>Reachability from the root\<close>

text \<open>
  C4: two field lists on which a nested model is built and the root gets no field at all.
  For the single row \<open>Auth.Clients.N\<close> the simple-array branch attaches \<open>clients\<close> to the
  model of \<open>Auth\<close>, and for the single row \<open>A.B.N.C\<close> the array-item branch attaches \<open>c\<close>
  to the model of \<open>A.B\<close>; neither records a root reference, so the root \<open>XRequest\<close> is
  empty and the nested models are not referenced from it.
\<close>

theorem unreferenced_nested_model:
  "map_sum id fst
     (request_models (init_generator ''AgentKitBaseModel'' None) ''X''
       [\<lparr>Name = Some ''Auth.Clients.N'', Type = Some 1, IsRequired = Some 0, IsArray = None,
         Description = None, ParameterType_ref = None\<rparr>])
   = Inr [\<lparr>model_name = ''AuthForX'',
            model_fields =
              [\<lparr>name = ''Clients'', python_name = ''clients'', type_str = ''str'',
                is_required = False, is_array = True, description = []\<rparr>]\<rparr>,
          \<lparr>model_name = ''XRequest'', model_fields = []\<rparr>] \<and>
   map_sum id fst
     (request_models (init_generator ''AgentKitBaseModel'' None) ''X''
       [\<lparr>Name = Some ''A.B.N.C'', Type = Some 1, IsRequired = Some 0, IsArray = None,
         Description = None, ParameterType_ref = None\<rparr>])
   = Inr [\<lparr>model_name = ''AForX'',
            model_fields =
              [\<lparr>name = ''B'', python_name = ''b'', type_str = ''ABItemForX'',
                is_required = False, is_array = True, description = []\<rparr>]\<rparr>,
          \<lparr>model_name = ''ABItemForX'',
            model_fields =
              [\<lparr>name = ''C'', python_name = ''c'', type_str = ''str'',
                is_required = False, is_array = False, description = []\<rparr>]\<rparr>,
          \<lparr>model_name = ''XRequest'', model_fields = []\<rparr>]"
  by code_simp

section \<open>Rows without a name\<close>

lemma fold_err_error:
  assumes "x \<in> set xs" and "\<And>s. isl (f x s)"
  shows "isl (fold_err f xs s)"
  using assms(1)
proof (induction xs arbitrary: s)
  case Nil
  then show ?case by simp
next
  case (Cons a xs)
  show ?case
  proof (cases "f a s")
    case (Inl e)
    then show ?thesis by simp
  next
    case (Inr s')
    with assms(2) [of s] have "a \<noteq> x" by auto
    with Cons.prems have "x \<in> set xs" by simp
    with Cons.IH Inr show ?thesis by simp
  qed
qed

lemma discover_step_no_name: "Name p = None \<Longrightarrow> isl (discover_step p d)"
  by (simp add: discover_step_def)

lemma create_nested_structure_no_name:
  "p \<in> set parameters \<Longrightarrow> Name p = None \<Longrightarrow> isl (create_nested_structure gs parameters action)"
proof -
  assume p: "p \<in> set parameters" and n: "Name p = None"
  have "isl (fold_err discover_step parameters
          \<lparr>array_fields = [], normal_fields = [], nested_object_paths = []\<rparr>)"
    using p n by (intro fold_err_error [of p]) (simp_all add: discover_step_no_name)
  then show ?thesis
    by (auto simp: create_nested_structure_def create_nested_structure_locals_def
             split: sum.splits)
qed

lemma generate_request_model_no_name:
  assumes "p \<in> set parameters" and "Name p = None"
  shows "isl (generate_request_model g action parameters)"
proof -
  from assms
  have "isl (create_nested_structure
               (register_class_name (generated_class_names g) (action @ ''Request''))
               parameters action)"
    by (rule create_nested_structure_no_name)
  then show ?thesis
    by (auto simp: generate_request_model_def request_models_def Let_def split: sum.splits)
qed

text \<open>
  C8: a row that lacks its \<open>Name\<close>. As a request row it makes \<open>generate_request_model\<close>
  fail, as the claim says (\<open>generate_request_model_no_name\<close> shows it for every field
  list). As a response row it does not: \<open>generate_response_model\<close> reads the name as the
  empty string and emits, under the class header, the line
  \<^verbatim>\<open>    : Optional[str] = Field(default=None, alias="")\<close>, a field without an identifier,
  instead of failing.
\<close>

theorem response_row_without_name:
  "isl (generate_request_model (init_generator ''AgentKitBaseModel'' None) ''A''
          [\<lparr>Name = None, Type = Some 1, IsRequired = None, IsArray = None,
            Description = None, ParameterType_ref = None\<rparr>]) \<and>
   generate_response_model (init_generator ''AgentKitBaseModel'' None) ''A''
     [\<lparr>Name = None, Type = Some 1, IsRequired = None, IsArray = None,
       Description = None, ParameterType_ref = None\<rparr>]
   = (''class AResponse(AgentKitBaseModel):'' @ [CHR 0x0A] @
      ''    : Optional[str] = Field(default=None, alias='' @ [CHR 0x22, CHR 0x22] @ '')'',
      \<lparr>nested_models = [], generated_class_names = [''AResponse'', ''AgentKitBaseModel''],
       base_model_name = ''AgentKitBaseModel'',
       base_model_doc = ''AgentKit auto-generated base model''\<rparr>)"
  by code_simp

section \<open>The client arguments\<close>

text \<open>
  C9, as the specification states it, fails: with a client class name but no client
  output path the driver makes no check and generates no client, without any error.
\<close>

theorem client_check_skipped_without_output:
  "main_client \<lparr>client_output = None, client_class_name = Some ''AgentkitMCP'',
                client_description = None, service_name = None, types_module = None,
                base_class_import = ''agentkit.client'',
                base_client_class = ''BaseAgentkitClient''\<rparr> = Inr ClientSkipped"
  by code_simp

lemma missing_client_args_iff:
  "(''--client-class-name'' \<in> set (missing_client_args a) \<longleftrightarrow> \<not> truthy (client_class_name a)) \<and>
   (''--service-name'' \<in> set (missing_client_args a) \<longleftrightarrow> \<not> truthy (service_name a)) \<and>
   (''--types-module'' \<in> set (missing_client_args a) \<longleftrightarrow> \<not> truthy (types_module a)) \<and>
   set (missing_client_args a) \<subseteq> {''--client-class-name'', ''--service-name'', ''--types-module''}"
  by (auto simp: missing_client_args_def)

text \<open>
  C9, amended: when a client output path is given and at least one of the client class
  name, the service name and the types module is missing or empty, the driver raises a
  ValueError whose message lists exactly the flags that are missing; when all three are
  given the client is generated; without a client output path the three options are
  never checked and client generation is skipped.
\<close>

theorem main_client_check:
  "(truthy (client_output a) \<and>
    \<not> (truthy (client_class_name a) \<and> truthy (service_name a) \<and> truthy (types_module a)) \<longrightarrow>
      main_client a = Inl (ValueError (join '', '' (missing_client_args a))) \<and>
      missing_client_args a \<noteq> [] \<and>
      (''--client-class-name'' \<in> set (missing_client_args a) \<longleftrightarrow> \<not> truthy (client_class_name a)) \<and>
      (''--service-name'' \<in> set (missing_client_args a) \<longleftrightarrow> \<not> truthy (service_name a)) \<and>
      (''--types-module'' \<in> set (missing_client_args a) \<longleftrightarrow> \<not> truthy (types_module a)) \<and>
      set (missing_client_args a) \<subseteq> {''--client-class-name'', ''--service-name'', ''--types-module''}) \<and>
   (truthy (client_output a) \<and>
    truthy (client_class_name a) \<and> truthy (service_name a) \<and> truthy (types_module a) \<longrightarrow>
      \<not> isl (main_client a) \<and> main_client a \<noteq> Inr ClientSkipped) \<and>
   (\<not> truthy (client_output a) \<longrightarrow> main_client a = Inr ClientSkipped)"
proof -
  have ne: "\<not> (truthy (client_class_name a) \<and> truthy (service_name a) \<and> truthy (types_module a))
            \<Longrightarrow> missing_client_args a \<noteq> []"
    using missing_client_args_iff [of a] by auto
  show ?thesis
    using missing_client_args_iff [of a] ne
    by (auto simp: main_client_def Let_def)
qed

theorem main_client_check_witness:
  "main_client \<lparr>client_output = Some ''client.py'', client_class_name = Some ''AgentkitMCP'',
                client_description = None, service_name = None, types_module = Some [],
                base_class_import = ''agentkit.client'',
                base_client_class = ''BaseAgentkitClient''\<rparr>
     = Inl (ValueError ''--service-name, --types-module'') \<and>
   missing_client_args \<lparr>client_output = Some ''client.py'', client_class_name = Some ''AgentkitMCP'',
                client_description = None, service_name = None, types_module = Some [],
                base_class_import = ''agentkit.client'',
                base_client_class = ''BaseAgentkitClient''\<rparr>
     = [''--service-name'', ''--types-module'']"
  using main_client_check [of "\<lparr>client_output = Some ''client.py'', client_class_name = Some ''AgentkitMCP'',
                client_description = None, service_name = None, types_module = Some [],
                base_class_import = ''agentkit.client'',
                base_client_class = ''BaseAgentkitClient''\<rparr>"]
  by code_simp

section \<open>Array-object paths\<close>

subsection \<open>The first pass\<close>

lemma keys_dd_add: "fst ` set (dd_add k v d) = insert k (fst ` set d)"
  by (simp add: dd_add_def dom_update)

lemma set_fold_insert_paths:
  "set (fold (\<lambda>i paths. List.insert (g i) paths) is ps) = set ps \<union> g ` set is"
  by (induction "is" arbitrary: ps) auto

lemma discover_step_cases:
  assumes "discover_step p d = Inr d'"
  shows "(classified p = None \<and> d' = d) \<or>
         (\<exists>P leaf ai sa. classified p = Some (P, leaf, ai, sa) \<and>
            array_fields d' = (if ai then dd_add P leaf (array_fields d) else array_fields d) \<and>
            normal_fields d' = (if ai then normal_fields d else dd_add P leaf (normal_fields d)) \<and>
            insert P (set (nested_object_paths d)) \<subseteq> set (nested_object_paths d'))"
proof (cases "Name p")
  case None
  with assms show ?thesis by (simp add: discover_step_def)
next
  case (Some field_name)
  show ?thesis
  proof (cases "parse_field_path field_name")
    case (Inl e)
    with Some assms show ?thesis by (simp add: discover_step_def)
  next
    case (Inr res)
    obtain path_parts leaf ai sa where res: "res = (path_parts, leaf, ai, sa)"
      by (cases res)
    show ?thesis
    proof (cases "path_parts = []")
      case True
      with Some Inr res assms show ?thesis
        by (simp add: discover_step_def classified_def)
    next
      case False
      then have "length path_parts \<in> set [1 ..< length path_parts + 1]"
        by (cases path_parts) auto
      then have "join ''.'' (take (length path_parts) path_parts)
                  \<in> (\<lambda>i. join ''.'' (take i path_parts)) ` set [1 ..< length path_parts + 1]"
        by (rule imageI)
      then have "join ''.'' path_parts
                  \<in> (\<lambda>i. join ''.'' (take i path_parts)) ` set [1 ..< length path_parts + 1]"
        by simp
      with False Some Inr res assms show ?thesis
        by (auto simp: discover_step_def classified_def Let_def set_fold_insert_paths
                 simp del: upt_Suc set_upt)
    qed
  qed
qed

lemma discover_step_keys:
  assumes "discover_step p d = Inr d'"
  shows "fst ` set (array_fields d') = fst ` set (array_fields d) \<union> {P. array_leaf_under P p}"
    and "fst ` set (normal_fields d') = fst ` set (normal_fields d) \<union> {P. plain_leaf_under P p}"
    and "set (nested_object_paths d) \<union> {P. array_leaf_under P p \<or> plain_leaf_under P p}
           \<subseteq> set (nested_object_paths d')"
  using discover_step_cases [OF assms]
  by (auto simp: array_leaf_under_def plain_leaf_under_def keys_dd_add split: if_splits)

lemma discover_keys:
  assumes "fold_err discover_step parameters d = Inr d'"
  shows "fst ` set (array_fields d') =
           fst ` set (array_fields d) \<union> {P. \<exists>r\<in>set parameters. array_leaf_under P r}"
    and "fst ` set (normal_fields d') =
           fst ` set (normal_fields d) \<union> {P. \<exists>r\<in>set parameters. plain_leaf_under P r}"
    and "set (nested_object_paths d)
           \<union> {P. \<exists>r\<in>set parameters. array_leaf_under P r \<or> plain_leaf_under P r}
           \<subseteq> set (nested_object_paths d')"
  using assms
proof (induction parameters arbitrary: d)
  case Nil
  { case 1 then show ?case by simp }
  { case 2 then show ?case by simp }
  { case 3 then show ?case by simp }
next
  case (Cons p ps)
  { case 1
    then obtain d1 where s: "discover_step p d = Inr d1" and r: "fold_err discover_step ps d1 = Inr d'"
      by (auto split: sum.splits)
    from Cons.IH(1) [OF r] discover_step_keys(1) [OF s] show ?case by auto }
  { case 2
    then obtain d1 where s: "discover_step p d = Inr d1" and r: "fold_err discover_step ps d1 = Inr d'"
      by (auto split: sum.splits)
    from Cons.IH(2) [OF r] discover_step_keys(2) [OF s] show ?case by auto }
  { case 3
    then obtain d1 where s: "discover_step p d = Inr d1" and r: "fold_err discover_step ps d1 = Inr d'"
      by (auto split: sum.splits)
    from Cons.IH(3) [OF r] discover_step_keys(3) [OF s] show ?case by auto }
qed

lemma keys_array_objects_of:
  "fst ` set (array_objects_of d) = fst ` set (array_fields d) - fst ` set (normal_fields d)"
  by (auto simp: array_objects_of_def map_of_eq_None_iff image_iff)


subsection \<open>Model creation\<close>

lemma qualify_loop_starts_with:
  "starts_with prefix candidate \<Longrightarrow> starts_with prefix (qualify_loop gs prefix index candidate)"
proof (induction gs prefix index candidate rule: qualify_loop.induct)
  case (1 gs prefix index candidate)
  show ?case
  proof (cases "candidate \<in> set gs")
    case True
    have "starts_with prefix (prefix @ str_nat index)"
      by (simp add: starts_with_def)
    from "1.IH" [OF True this] True show ?thesis
      by (subst qualify_loop.simps) simp
  next
    case False
    with "1.prems" show ?thesis
      by (subst qualify_loop.simps) simp
  qed
qed

lemma qualify_model_name_starts_with:
  "qualify_model_name gs base action = (cls, gs') \<Longrightarrow> starts_with (base @ ''For'' @ action) cls"
  using qualify_loop_starts_with [of "base @ ''For'' @ action" "base @ ''For'' @ action" gs 2]
  by (auto simp: qualify_model_name_def Let_def starts_with_def)

lemma map_of_update: "map_of (AList.update k v al) = (map_of al)(k \<mapsto> v)"
  by (rule update_conv')

lemma new_model_ok:
  assumes ok: "models_ok A action b"
    and base: "base = build_nested_base_name path (map_of A path \<noteq> None)"
  shows "models_ok A action (new_model path base action b)"
proof -
  obtain cls gs' where q: "qualify_model_name (registry b) base action = (cls, gs')"
    by (cases "qualify_model_name (registry b) base action")
  from qualify_model_name_fresh [OF q]
  have fresh: "cls \<notin> set (registry b)" and gs': "set gs' = insert cls (set (registry b))"
    by simp_all
  from qualify_model_name_starts_with [OF q]
  have sw: "starts_with (base @ ''For'' @ action) cls" .
  let ?b = "new_model path base action b"
  have heap: "heap ?b = heap b @ [\<lparr>model_name = cls, model_fields = []\<rparr>]"
    and pm: "map_of (path_models ?b) = (map_of (path_models b))(path \<mapsto> length (heap b))"
    and cm: "map_of (class_models ?b) = (map_of (class_models b))(cls \<mapsto> length (heap b))"
    and reg: "registry ?b = gs'"
    using q by (simp_all add: new_model_def Let_def map_of_update)
  from ok have old_names: "\<And>i. i < length (heap b) \<Longrightarrow> model_name (heap b ! i) \<in> set (registry b)"
    and old: "\<And>P ref. map_of (path_models b) P = Some ref \<Longrightarrow>
        ref < length (heap b) \<and>
        map_of (class_models b) (model_name (heap b ! ref)) = Some ref \<and>
        starts_with (build_nested_base_name P (map_of A P \<noteq> None) @ ''For'' @ action)
          (model_name (heap b ! ref))"
    by (auto simp: models_ok_def)
  have 1: "\<forall>i < length (heap ?b). model_name (heap ?b ! i) \<in> set (registry ?b)"
  proof (intro allI impI)
    fix i assume "i < length (heap ?b)"
    then have "i < length (heap b) \<or> i = length (heap b)" by (auto simp: heap)
    then show "model_name (heap ?b ! i) \<in> set (registry ?b)"
      using old_names [of i] by (auto simp: heap reg gs' nth_append)
  qed
  have 2: "\<forall>P ref. map_of (path_models ?b) P = Some ref \<longrightarrow>
        ref < length (heap ?b) \<and>
        map_of (class_models ?b) (model_name (heap ?b ! ref)) = Some ref \<and>
        starts_with (build_nested_base_name P (map_of A P \<noteq> None) @ ''For'' @ action)
          (model_name (heap ?b ! ref))"
  proof (intro allI impI)
    fix P ref assume m: "map_of (path_models ?b) P = Some ref"
    show "ref < length (heap ?b) \<and>
        map_of (class_models ?b) (model_name (heap ?b ! ref)) = Some ref \<and>
        starts_with (build_nested_base_name P (map_of A P \<noteq> None) @ ''For'' @ action)
          (model_name (heap ?b ! ref))"
    proof (cases "P = path")
      case True
      with m have r: "ref = length (heap b)" by (simp add: pm)
      from sw base True
      have "starts_with (build_nested_base_name P (map_of A P \<noteq> None) @ ''For'' @ action) cls"
        by simp
      with r show ?thesis by (simp add: heap cm)
    next
      case False
      with m have m': "map_of (path_models b) P = Some ref" by (simp add: pm)
      from old [OF m'] have lt: "ref < length (heap b)"
        and c: "map_of (class_models b) (model_name (heap b ! ref)) = Some ref"
        and s: "starts_with (build_nested_base_name P (map_of A P \<noteq> None) @ ''For'' @ action)
                  (model_name (heap b ! ref))"
        by simp_all
      from old_names [OF lt] fresh have "model_name (heap b ! ref) \<noteq> cls" by auto
      with lt c s show ?thesis by (simp add: heap cm nth_append)
    qed
  qed
  from 1 2 show ?thesis by (simp add: models_ok_def)
qed

lemma new_model_keys:
  "fst ` set (path_models (new_model path base action b)) = insert path (fst ` set (path_models b))"
  by (simp add: new_model_def Let_def dom_update split: prod.splits)

lemma plain_models_ok:
  "models_ok A action b \<Longrightarrow> models_ok A action (fold (plain_model_step A action) xs b)"
  by (induction xs arbitrary: b) (auto simp: plain_model_step_def new_model_ok)

lemma plain_models_keys:
  "fst ` set (path_models (fold (plain_model_step A action) xs b)) =
     fst ` set (path_models b) \<union> {x \<in> set xs. map_of A x = None}"
  by (induction xs arbitrary: b) (auto simp: plain_model_step_def new_model_keys)

lemma item_models_ok:
  "models_ok A action b \<Longrightarrow> set xs \<subseteq> fst ` set A \<Longrightarrow>
     models_ok A action (fold (item_model_step paths action) xs b)"
proof (induction xs arbitrary: b)
  case Nil
  then show ?case by simp
next
  case (Cons x xs)
  then have "map_of A x \<noteq> None" by (auto simp: map_of_eq_None_iff)
  with Cons.prems have "models_ok A action (item_model_step paths action x b)"
    by (auto simp: item_model_step_def Let_def intro: new_model_ok)
  with Cons show ?case by simp
qed

lemma item_models_keys:
  "fst ` set (path_models (fold (item_model_step paths action) xs b)) =
     fst ` set (path_models b)
       \<union> {x \<in> set xs. length (split_sep CHR ''.'' x) = 1 \<or> x \<in> set paths}"
  by (induction xs arbitrary: b) (auto simp: item_model_step_def Let_def new_model_keys)


subsection \<open>Wiring and filling only add fields\<close>

lemma extends_refl: "extends b b"
  by (simp add: extends_def)

lemma extends_trans:
  assumes "extends b b1" and "extends b1 b2"
  shows "extends b b2"
proof -
  have "set (model_fields (heap b ! i)) \<subseteq> set (model_fields (heap b2 ! i))" for i
  proof -
    from assms(1) have "set (model_fields (heap b ! i)) \<subseteq> set (model_fields (heap b1 ! i))"
      by (simp add: extends_def)
    also from assms(2) have "\<dots> \<subseteq> set (model_fields (heap b2 ! i))"
      by (simp add: extends_def)
    finally show ?thesis .
  qed
  with assms show ?thesis by (simp add: extends_def)
qed

lemma add_field_at_nth:
  "add_field_at ref field h ! i =
     (if i = ref \<and> ref < length h then add_field (h ! ref) field else h ! i)"
proof (cases "ref < length h")
  case True
  then show ?thesis by (cases "i = ref") (simp_all add: add_field_at_def)
next
  case False
  then have "h[ref := add_field (h ! ref) field] = h"
    by (intro list_update_beyond) simp
  with False show ?thesis by (simp add: add_field_at_def)
qed

lemma extends_add_field_at: "extends b (b\<lparr>heap := add_field_at ref field (heap b)\<rparr>)"
  by (auto simp: extends_def add_field_at_nth add_field_def) (simp add: add_field_at_def)

lemma extends_root: "extends b (b\<lparr>root := r\<rparr>)"
  by (simp add: extends_def)

lemma extends_add_root_ref: "extends b b' \<Longrightarrow> extends b (add_root_ref n info b')"
  by (simp add: add_root_ref_def extends_def)

lemma wire_step_extends: "extends b (wire_step A full_path b)"
  by (simp add: wire_step_def Let_def extends_refl extends_add_field_at split: option.splits)

lemma fold_wire_extends: "extends b (fold (wire_step A) xs b)"
proof (induction xs arbitrary: b)
  case Nil
  show ?case by (simp add: extends_refl)
next
  case (Cons x xs)
  from wire_step_extends [of b A x] Cons.IH [of "wire_step A x b"]
  show ?case by (auto intro: extends_trans)
qed

lemma fill_step_extends:
  assumes "fill_step p b = Inr b'"
  shows "extends b b'"
proof -
  from assms obtain field_name where n: "Name p = Some field_name"
    by (auto simp: fill_step_def split: option.splits)
  from assms n obtain path_parts leaf ai sa
    where pf: "parse_field_path field_name = Inr (path_parts, leaf, ai, sa)"
    by (auto simp: fill_step_def split: sum.splits)
  from assms n pf show ?thesis
    by (auto simp: fill_step_def Let_def extends_refl extends_root extends_add_field_at
             intro!: extends_add_root_ref
             split: option.splits if_splits)
qed

lemma fold_fill_extends:
  "fold_err fill_step ps b = Inr b' \<Longrightarrow> extends b b'"
proof (induction ps arbitrary: b)
  case Nil
  then show ?case by (simp add: extends_refl)
next
  case (Cons p ps)
  then obtain b1 where s: "fill_step p b = Inr b1" and r: "fold_err fill_step ps b1 = Inr b'"
    by (auto split: sum.splits)
  from fill_step_extends [OF s] Cons.IH [OF r] show ?case
    by (rule extends_trans)
qed

lemma root_ref_step_extends: "extends b (root_ref_step entry b)"
  by (cases entry) (simp add: root_ref_step_def Let_def extends_refl extends_root)

lemma fold_root_ref_extends: "extends b (fold root_ref_step xs b)"
proof (induction xs arbitrary: b)
  case Nil
  show ?case by (simp add: extends_refl)
next
  case (Cons x xs)
  from root_ref_step_extends [of b x] Cons.IH [of "root_ref_step x b"]
  show ?case by (auto intro: extends_trans)
qed

lemma models_ok_extends:
  "models_ok A action b \<Longrightarrow> extends b b' \<Longrightarrow> models_ok A action b'"
  by (simp add: models_ok_def extends_def)

lemma fill_step_attaches:
  assumes s: "fill_step p b = Inr b'"
    and c: "classified p = Some (P, leaf, True, False)"
    and m: "map_of (path_models b) P = Some ref"
    and lt: "ref < length (heap b)"
  shows "leaf_field p leaf False \<in> set (model_fields (heap b' ! ref))"
proof -
  from c obtain field_name where n: "Name p = Some field_name"
    by (auto simp: classified_def split: option.splits)
  from c n obtain path_parts
    where pf: "parse_field_path field_name = Inr (path_parts, leaf, True, False)"
      and ne: "path_parts \<noteq> []" and P: "P = join ''.'' path_parts"
    by (auto simp: classified_def split: sum.splits if_splits)
  let ?h = "add_field_at ref (leaf_field p leaf False) (heap b)"
  have att: "leaf_field p leaf False \<in> set (model_fields (?h ! ref))"
    using lt by (simp add: add_field_at_nth add_field_def)
  from s n pf ne P m have "heap b' = ?h"
    by (auto simp: fill_step_def Let_def add_root_ref_def split: if_splits)
  with att show ?thesis by simp
qed

lemma fold_fill_attaches:
  assumes "fold_err fill_step ps b = Inr b'"
    and "r \<in> set ps"
    and "classified r = Some (P, leaf, True, False)"
    and "map_of (path_models b) P = Some ref"
    and "ref < length (heap b)"
  shows "leaf_field r leaf False \<in> set (model_fields (heap b' ! ref))"
  using assms
proof (induction ps arbitrary: b)
  case Nil
  then show ?case by simp
next
  case (Cons p ps)
  from Cons.prems(1) obtain b1
    where s: "fill_step p b = Inr b1" and rest: "fold_err fill_step ps b1 = Inr b'"
    by (auto split: sum.splits)
  from fill_step_extends [OF s]
  have pm: "path_models b1 = path_models b" and len: "length (heap b1) = length (heap b)"
    by (simp_all add: extends_def)
  show ?case
  proof (cases "r \<in> set ps")
    case True
    from Cons.IH [OF rest True Cons.prems(3)] Cons.prems(4,5) pm len
    show ?thesis by simp
  next
    case False
    with Cons.prems(2) have "r = p" by simp
    with s Cons.prems(3,4,5)
    have "leaf_field r leaf False \<in> set (model_fields (heap b1 ! ref))"
      by (auto intro: fill_step_attaches)
    moreover from fold_fill_extends [OF rest]
    have "set (model_fields (heap b1 ! ref)) \<subseteq> set (model_fields (heap b' ! ref))"
      by (simp add: extends_def)
    ultimately show ?thesis by auto
  qed
qed


subsection \<open>The nodes of the discovered paths\<close>

lemma node_of_emitted:
  assumes "models_ok A action b" and "P \<in> fst ` set (path_models b)"
  shows "case node_of b P of
           None \<Rightarrow> False
         | Some m \<Rightarrow> (model_name m, m) \<in> set (nested_models_of b) \<and>
             starts_with (build_nested_base_name P (map_of A P \<noteq> None) @ ''For'' @ action)
               (model_name m)"
proof -
  from assms(2) obtain ref where m: "map_of (path_models b) P = Some ref"
    by (cases "map_of (path_models b) P") (auto simp: map_of_eq_None_iff)
  with assms(1) have lt: "ref < length (heap b)"
    and c: "map_of (class_models b) (model_name (heap b ! ref)) = Some ref"
    and s: "starts_with (build_nested_base_name P (map_of A P \<noteq> None) @ ''For'' @ action)
              (model_name (heap b ! ref))"
    by (auto simp: models_ok_def)
  from c have "(model_name (heap b ! ref), ref) \<in> set (class_models b)"
    by (rule map_of_SomeD)
  then have "(model_name (heap b ! ref), heap b ! ref) \<in> set (nested_models_of b)"
    by (force simp: nested_models_of_def)
  with m lt s show ?thesis by (simp add: node_of_def)
qed

lemma locals_unfold:
  assumes "create_nested_structure_locals gs parameters action = Inr L"
  obtains d b2 b3 b4 where
    "fold_err discover_step parameters
       \<lparr>array_fields = [], normal_fields = [], nested_object_paths = []\<rparr> = Inr d"
    "array_objects L = array_objects_of d"
    "b2 = fold (item_model_step (nested_object_paths d) action) (map fst (array_objects_of d))
            (fold (plain_model_step (array_objects_of d) action) (sort (nested_object_paths d))
              \<lparr>heap = [], path_models = [], class_models = [], path_class_names = [],
               registry = gs, root = \<lparr>model_name = ''Root'', model_fields = []\<rparr>,
               root_refs = []\<rparr>)"
    "b3 = fold (wire_step (array_objects_of d)) (sort (nested_object_paths d)) b2"
    "fold_err fill_step parameters b3 = Inr b4"
    "built L = fold root_ref_step (root_refs b4) b4"
  using assms
  by (auto simp: create_nested_structure_locals_def Let_def split: sum.splits)

lemma array_objects_iff:
  assumes "create_nested_structure_locals gs parameters action = Inr L"
  shows "P \<in> fst ` set (array_objects L) \<longleftrightarrow>
           (\<exists>r\<in>set parameters. array_leaf_under P r) \<and>
           \<not> (\<exists>r\<in>set parameters. plain_leaf_under P r)"
proof -
  from assms obtain d b2 b3 b4 where
    d: "fold_err discover_step parameters
          \<lparr>array_fields = [], normal_fields = [], nested_object_paths = []\<rparr> = Inr d"
    and A: "array_objects L = array_objects_of d"
    by (rule locals_unfold)
  from discover_keys(1,2) [OF d] show ?thesis
    by (simp add: A keys_array_objects_of)
qed

lemma built_nodes:
  assumes "create_nested_structure_locals gs parameters action = Inr L"
  obtains b3 b4 where
    "models_ok (array_objects L) action b3"
    "\<And>P. (\<exists>r\<in>set parameters. array_leaf_under P r \<or> plain_leaf_under P r)
         \<Longrightarrow> P \<in> fst ` set (path_models b3)"
    "fold_err fill_step parameters b3 = Inr b4"
    "extends b4 (built L)"
proof -
  from assms obtain d b2 b3 b4 where
    d: "fold_err discover_step parameters
          \<lparr>array_fields = [], normal_fields = [], nested_object_paths = []\<rparr> = Inr d"
    and A: "array_objects L = array_objects_of d"
    and b2: "b2 = fold (item_model_step (nested_object_paths d) action) (map fst (array_objects_of d))
            (fold (plain_model_step (array_objects_of d) action) (sort (nested_object_paths d))
              \<lparr>heap = [], path_models = [], class_models = [], path_class_names = [],
               registry = gs, root = \<lparr>model_name = ''Root'', model_fields = []\<rparr>,
               root_refs = []\<rparr>)"
    and b3: "b3 = fold (wire_step (array_objects_of d)) (sort (nested_object_paths d)) b2"
    and b4: "fold_err fill_step parameters b3 = Inr b4"
    and b5: "built L = fold root_ref_step (root_refs b4) b4"
    by (rule locals_unfold)
  let ?A = "array_objects_of d"
  let ?b0 = "\<lparr>heap = [], path_models = [], class_models = [], path_class_names = [],
               registry = gs, root = \<lparr>model_name = ''Root'', model_fields = []\<rparr>,
               root_refs = []\<rparr>"
  have "models_ok ?A action ?b0"
    by (simp add: models_ok_def)
  then have "models_ok ?A action (fold (plain_model_step ?A action) (sort (nested_object_paths d)) ?b0)"
    by (rule plain_models_ok)
  then have ok2: "models_ok ?A action b2"
    unfolding b2 by (rule item_models_ok) simp
  have e23: "extends b2 b3"
    unfolding b3 by (rule fold_wire_extends)
  with ok2 have ok3: "models_ok (array_objects L) action b3"
    unfolding A by (rule models_ok_extends)
  have keys2: "fst ` set (path_models b2) =
      {x \<in> set (nested_object_paths d). map_of ?A x = None}
      \<union> {x \<in> fst ` set ?A. length (split_sep CHR ''.'' x) = 1 \<or> x \<in> set (nested_object_paths d)}"
    unfolding b2 by (simp add: item_models_keys plain_models_keys)
  have nested: "{P. \<exists>r\<in>set parameters. array_leaf_under P r \<or> plain_leaf_under P r}
                  \<subseteq> set (nested_object_paths d)"
    using discover_keys(3) [OF d] by simp
  have keys3: "P \<in> fst ` set (path_models b3)"
    if "\<exists>r\<in>set parameters. array_leaf_under P r \<or> plain_leaf_under P r" for P
  proof -
    from that nested have n: "P \<in> set (nested_object_paths d)" by blast
    have "P \<in> fst ` set (path_models b2)"
    proof (cases "map_of ?A P")
      case None
      with n show ?thesis by (simp add: keys2)
    next
      case (Some v)
      then have "P \<in> fst ` set ?A"
        by (metis map_of_eq_None_iff option.distinct(1))
      with n show ?thesis by (simp add: keys2)
    qed
    with e23 show ?thesis by (simp add: extends_def)
  qed
  have "extends b4 (built L)"
    unfolding b5 by (rule fold_root_ref_extends)
  with ok3 keys3 b4 show ?thesis
    by (rule that)
qed


text \<open>
  For every field list on which the builder returns: a path \<open>P\<close> is recorded as an
  array-object path exactly when some row is an array-item leaf under \<open>P\<close> and no row is
  a plain leaf under \<open>P\<close>; an array-object path has an emitted model whose name is built
  from the \<open>Item\<close>-suffixed base name of the path; and when \<open>P\<close> has both kinds of leaves,
  its emitted model is named from the base name without the suffix, and every array-item
  leaf under \<open>P\<close> whose path does not end in a marker is among its fields as a non-array
  field.
\<close>

theorem array_object_classification:
  assumes "create_nested_structure_locals gs parameters action = Inr L"
  shows
    "(P \<in> fst ` set (array_objects L) \<longleftrightarrow>
        (\<exists>r\<in>set parameters. array_leaf_under P r) \<and>
        \<not> (\<exists>r\<in>set parameters. plain_leaf_under P r)) \<and>
     (P \<in> fst ` set (array_objects L) \<longrightarrow>
        (case node_of (built L) P of
           None \<Rightarrow> False
         | Some m \<Rightarrow>
             (model_name m, m) \<in> set (nested_models_of (built L)) \<and>
             starts_with (build_nested_base_name P True @ ''For'' @ action) (model_name m))) \<and>
     ((\<exists>r\<in>set parameters. array_leaf_under P r) \<and>
      (\<exists>r\<in>set parameters. plain_leaf_under P r) \<longrightarrow>
        (case node_of (built L) P of
           None \<Rightarrow> False
         | Some m \<Rightarrow>
             (model_name m, m) \<in> set (nested_models_of (built L)) \<and>
             starts_with (build_nested_base_name P False @ ''For'' @ action) (model_name m) \<and>
             (\<forall>r\<in>set parameters. \<forall>leaf.
                classified r = Some (P, leaf, True, False) \<longrightarrow>
                  leaf_field r leaf False \<in> set (model_fields m) \<and>
                  \<not> is_array (leaf_field r leaf False))))"
proof -
  obtain b3 b4 where
    ok3: "models_ok (array_objects L) action b3"
    and keys3: "\<And>P. (\<exists>r\<in>set parameters. array_leaf_under P r \<or> plain_leaf_under P r)
         \<Longrightarrow> P \<in> fst ` set (path_models b3)"
    and b4: "fold_err fill_step parameters b3 = Inr b4"
    and e45: "extends b4 (built L)"
    using built_nodes [OF assms] by blast
  have e34: "extends b3 b4"
    using b4 by (rule fold_fill_extends)
  from e34 e45 have e35: "extends b3 (built L)"
    by (rule extends_trans)
  with ok3 have ok5: "models_ok (array_objects L) action (built L)"
    by (rule models_ok_extends)
  have iff: "P \<in> fst ` set (array_objects L) \<longleftrightarrow>
        (\<exists>r\<in>set parameters. array_leaf_under P r) \<and>
        \<not> (\<exists>r\<in>set parameters. plain_leaf_under P r)"
    using assms by (rule array_objects_iff)
  have in_A: "P \<in> fst ` set (array_objects L) \<longleftrightarrow> map_of (array_objects L) P \<noteq> None"
    by (simp add: map_of_eq_None_iff)
  have node: "case node_of (built L) P of
           None \<Rightarrow> False
         | Some m \<Rightarrow> (model_name m, m) \<in> set (nested_models_of (built L)) \<and>
             starts_with (build_nested_base_name P (map_of (array_objects L) P \<noteq> None)
                            @ ''For'' @ action) (model_name m)"
    if "\<exists>r\<in>set parameters. array_leaf_under P r \<or> plain_leaf_under P r"
  proof -
    from keys3 [OF that] e35 have "P \<in> fst ` set (path_models (built L))"
      by (simp add: extends_def)
    with ok5 show ?thesis by (rule node_of_emitted)
  qed
  have item: "case node_of (built L) P of
           None \<Rightarrow> False
         | Some m \<Rightarrow>
             (model_name m, m) \<in> set (nested_models_of (built L)) \<and>
             starts_with (build_nested_base_name P True @ ''For'' @ action) (model_name m)"
    if a: "P \<in> fst ` set (array_objects L)"
  proof -
    from a iff have "\<exists>r\<in>set parameters. array_leaf_under P r \<or> plain_leaf_under P r"
      by blast
    from node [OF this] a in_A show ?thesis
      by (simp split: option.splits)
  qed
  have mixed: "case node_of (built L) P of
           None \<Rightarrow> False
         | Some m \<Rightarrow>
             (model_name m, m) \<in> set (nested_models_of (built L)) \<and>
             starts_with (build_nested_base_name P False @ ''For'' @ action) (model_name m) \<and>
             (\<forall>r\<in>set parameters. \<forall>leaf.
                classified r = Some (P, leaf, True, False) \<longrightarrow>
                  leaf_field r leaf False \<in> set (model_fields m) \<and>
                  \<not> is_array (leaf_field r leaf False))"
    if both: "(\<exists>r\<in>set parameters. array_leaf_under P r) \<and>
              (\<exists>r\<in>set parameters. plain_leaf_under P r)"
  proof -
    from both iff in_A have notA: "map_of (array_objects L) P = None" by auto
    from both have "\<exists>r\<in>set parameters. array_leaf_under P r \<or> plain_leaf_under P r"
      by blast
    from node [OF this] notA obtain m where
      m: "node_of (built L) P = Some m"
      and em: "(model_name m, m) \<in> set (nested_models_of (built L))"
      and sw: "starts_with (build_nested_base_name P False @ ''For'' @ action) (model_name m)"
      by (auto split: option.splits)
    from m obtain ref where
      pm5: "map_of (path_models (built L)) P = Some ref"
      and lt5: "ref < length (heap (built L))"
      and mh: "m = heap (built L) ! ref"
      by (auto simp: node_of_def split: option.splits if_splits)
    from pm5 lt5 e35 have pm3: "map_of (path_models b3) P = Some ref"
      and lt3: "ref < length (heap b3)"
      by (simp_all add: extends_def)
    have "leaf_field r leaf False \<in> set (model_fields m) \<and>
          \<not> is_array (leaf_field r leaf False)"
      if r: "r \<in> set parameters" and c: "classified r = Some (P, leaf, True, False)"
      for r leaf
    proof -
      from b4 r c pm3 lt3
      have "leaf_field r leaf False \<in> set (model_fields (heap b4 ! ref))"
        by (rule fold_fill_attaches)
      moreover from e45
      have "set (model_fields (heap b4 ! ref)) \<subseteq> set (model_fields (heap (built L) ! ref))"
        by (simp add: extends_def)
      ultimately show ?thesis
        by (auto simp: mh leaf_field_def Let_def)
    qed
    with m em sw show ?thesis by simp
  qed
  from iff item mixed show ?thesis by blast
qed

theorem array_object_classification_witness:
  "\<not> isl (create_nested_structure_locals [''AgentKitBaseModel'', ''XRequest'']
            [\<lparr>Name = Some ''P.X'', Type = Some 1, IsRequired = Some 0, IsArray = None,
              Description = None, ParameterType_ref = None\<rparr>,
             \<lparr>Name = Some ''P.N.Key'', Type = Some 2, IsRequired = Some 1, IsArray = None,
              Description = None, ParameterType_ref = None\<rparr>] ''X'') \<and>
   plain_leaf_under ''P''
     \<lparr>Name = Some ''P.X'', Type = Some 1, IsRequired = Some 0, IsArray = None,
      Description = None, ParameterType_ref = None\<rparr> \<and>
   array_leaf_under ''P''
     \<lparr>Name = Some ''P.N.Key'', Type = Some 2, IsRequired = Some 1, IsArray = None,
      Description = None, ParameterType_ref = None\<rparr> \<and>
   (let L = projr (create_nested_structure_locals [''AgentKitBaseModel'', ''XRequest'']
            [\<lparr>Name = Some ''P.X'', Type = Some 1, IsRequired = Some 0, IsArray = None,
              Description = None, ParameterType_ref = None\<rparr>,
             \<lparr>Name = Some ''P.N.Key'', Type = Some 2, IsRequired = Some 1, IsArray = None,
              Description = None, ParameterType_ref = None\<rparr>] ''X'')
    in ''P'' \<notin> fst ` set (array_objects L) \<and>
       (case node_of (built L) ''P'' of
          None \<Rightarrow> False
        | Some m \<Rightarrow>
            starts_with ''PForX'' (model_name m) \<and>
            \<lparr>name = ''Key'', python_name = ''key'', type_str = ''int'',
             is_required = True, is_array = False, description = []\<rparr>
              \<in> set (model_fields m)))"
proof -
  let ?x = "\<lparr>Name = Some ''P.X'', Type = Some 1, IsRequired = Some 0, IsArray = None,
              Description = None, ParameterType_ref = None\<rparr>"
  let ?k = "\<lparr>Name = Some ''P.N.Key'', Type = Some 2, IsRequired = Some 1, IsArray = None,
              Description = None, ParameterType_ref = None\<rparr>"
  let ?run = "create_nested_structure_locals [''AgentKitBaseModel'', ''XRequest''] [?x, ?k] ''X''"
  have r: "\<not> isl ?run"
    by code_simp
  then have e: "?run = Inr (projr ?run)"
    by simp
  have x: "plain_leaf_under ''P'' ?x"
    by code_simp
  have k: "array_leaf_under ''P'' ?k"
    by code_simp
  have c: "classified ?k = Some (''P'', ''Key'', True, False)"
    by code_simp
  have f: "leaf_field ?k ''Key'' False =
             \<lparr>name = ''Key'', python_name = ''key'', type_str = ''int'',
              is_required = True, is_array = False, description = []\<rparr>"
    by code_simp
  have n: "build_nested_base_name ''P'' False @ ''For'' @ ''X'' = ''PForX''"
    by code_simp
  have both: "(\<exists>r\<in>set [?x, ?k]. array_leaf_under ''P'' r) \<and>
              (\<exists>r\<in>set [?x, ?k]. plain_leaf_under ''P'' r)"
    using x k by simp
  note inst = array_object_classification [OF e, of "''P''"]
  from inst both have notA: "''P'' \<notin> fst ` set (array_objects (projr ?run))"
    by blast
  from inst both
  have "case node_of (built (projr ?run)) ''P'' of
          None \<Rightarrow> False
        | Some m \<Rightarrow>
            (model_name m, m) \<in> set (nested_models_of (built (projr ?run))) \<and>
            starts_with (build_nested_base_name ''P'' False @ ''For'' @ ''X'') (model_name m) \<and>
            (\<forall>r\<in>set [?x, ?k]. \<forall>leaf.
               classified r = Some (''P'', leaf, True, False) \<longrightarrow>
                 leaf_field r leaf False \<in> set (model_fields m) \<and>
                 \<not> is_array (leaf_field r leaf False))"
    by blast
  then have node: "case node_of (built (projr ?run)) ''P'' of
          None \<Rightarrow> False
        | Some m \<Rightarrow>
            starts_with ''PForX'' (model_name m) \<and>
            \<lparr>name = ''Key'', python_name = ''key'', type_str = ''int'',
             is_required = True, is_array = False, description = []\<rparr>
              \<in> set (model_fields m)"
    using c f n by (cases "node_of (built (projr ?run)) ''P''") auto
  from r x k notA node show ?thesis
    by (simp only: Let_def simp_thms)
qed

subsection \<open>The reference to an array-object path from the root\<close>

text \<open>
  C1: the rows \<open>Envs.Sub.X\<close> and \<open>Envs.N.Key\<close>. Under \<open>Envs\<close> there is one array-item leaf
  (\<open>Key\<close>) and no plain leaf (\<open>X\<close> lies under \<open>Envs.Sub\<close>), so \<open>Envs\<close> is the one
  array-object path and gets the item model \<open>EnvsItemForX\<close>. The claim wants the field
  that refers to it from its parent, the root, wrapped as an array; the root field
  \<open>envs\<close> has \<open>is_array = False\<close>. The plain row is handled first and records the root
  reference of \<open>Envs\<close> as a non-array one, and the array-item row does not replace it: with
  the same two rows in the other order the field is array-wrapped. A reference between
  nested models is wrapped by the wiring pass whenever its target is an array-object
  path, as the rows \<open>A.K\<close> and \<open>A.B.N.C\<close> show (\<open>b\<close> in \<open>AForX\<close>).
\<close>

theorem array_object_root_reference:
  "array_leaf_under ''Envs''
     \<lparr>Name = Some ''Envs.N.Key'', Type = Some 1, IsRequired = Some 0, IsArray = None,
      Description = None, ParameterType_ref = None\<rparr> \<and>
   \<not> plain_leaf_under ''Envs''
     \<lparr>Name = Some ''Envs.N.Key'', Type = Some 1, IsRequired = Some 0, IsArray = None,
      Description = None, ParameterType_ref = None\<rparr> \<and>
   \<not> plain_leaf_under ''Envs''
     \<lparr>Name = Some ''Envs.Sub.X'', Type = Some 1, IsRequired = Some 0, IsArray = None,
      Description = None, ParameterType_ref = None\<rparr> \<and>
   map_sum id (\<lambda>L. map fst (array_objects L))
     (create_nested_structure_locals [''XRequest'', ''AgentKitBaseModel'']
       [\<lparr>Name = Some ''Envs.Sub.X'', Type = Some 1, IsRequired = Some 0, IsArray = None,
         Description = None, ParameterType_ref = None\<rparr>,
        \<lparr>Name = Some ''Envs.N.Key'', Type = Some 1, IsRequired = Some 0, IsArray = None,
         Description = None, ParameterType_ref = None\<rparr>] ''X'')
   = Inr [''Envs''] \<and>
   map_sum id fst
     (request_models (init_generator ''AgentKitBaseModel'' None) ''X''
       [\<lparr>Name = Some ''Envs.Sub.X'', Type = Some 1, IsRequired = Some 0, IsArray = None,
         Description = None, ParameterType_ref = None\<rparr>,
        \<lparr>Name = Some ''Envs.N.Key'', Type = Some 1, IsRequired = Some 0, IsArray = None,
         Description = None, ParameterType_ref = None\<rparr>])
   = Inr [\<lparr>model_name = ''EnvsSubForX'',
            model_fields =
              [\<lparr>name = ''X'', python_name = ''x'', type_str = ''str'',
                is_required = False, is_array = False, description = []\<rparr>]\<rparr>,
          \<lparr>model_name = ''EnvsItemForX'',
            model_fields =
              [\<lparr>name = ''Sub'', python_name = ''sub'', type_str = ''EnvsSubForX'',
                is_required = False, is_array = False, description = []\<rparr>,
               \<lparr>name = ''Key'', python_name = ''key'', type_str = ''str'',
                is_required = False, is_array = False, description = []\<rparr>]\<rparr>,
          \<lparr>model_name = ''XRequest'',
            model_fields =
              [\<lparr>name = ''Envs'', python_name = ''envs'', type_str = ''EnvsItemForX'',
                is_required = False, is_array = False, description = []\<rparr>]\<rparr>] \<and>
   map_sum id fst
     (request_models (init_generator ''AgentKitBaseModel'' None) ''X''
       [\<lparr>Name = Some ''Envs.N.Key'', Type = Some 1, IsRequired = Some 0, IsArray = None,
         Description = None, ParameterType_ref = None\<rparr>,
        \<lparr>Name = Some ''Envs.Sub.X'', Type = Some 1, IsRequired = Some 0, IsArray = None,
         Description = None, ParameterType_ref = None\<rparr>])
   = Inr [\<lparr>model_name = ''EnvsSubForX'',
            model_fields =
              [\<lparr>name = ''X'', python_name = ''x'', type_str = ''str'',
                is_required = False, is_array = False, description = []\<rparr>]\<rparr>,
          \<lparr>model_name = ''EnvsItemForX'',
            model_fields =
              [\<lparr>name = ''Sub'', python_name = ''sub'', type_str = ''EnvsSubForX'',
                is_required = False, is_array = False, description = []\<rparr>,
               \<lparr>name = ''Key'', python_name = ''key'', type_str = ''str'',
                is_required = False, is_array = False, description = []\<rparr>]\<rparr>,
          \<lparr>model_name = ''XRequest'',
            model_fields =
              [\<lparr>name = ''Envs'', python_name = ''envs'', type_str = ''EnvsItemForX'',
                is_required = False, is_array = True, description = []\<rparr>]\<rparr>] \<and>
   map_sum id fst
     (request_models (init_generator ''AgentKitBaseModel'' None) ''X''
       [\<lparr>Name = Some ''A.K'', Type = Some 1, IsRequired = Some 0, IsArray = None,
         Description = None, ParameterType_ref = None\<rparr>,
        \<lparr>Name = Some ''A.B.N.C'', Type = Some 1, IsRequired = Some 0, IsArray = None,
         Description = None, ParameterType_ref = None\<rparr>])
   = Inr [\<lparr>model_name = ''AForX'',
            model_fields =
              [\<lparr>name = ''B'', python_name = ''b'', type_str = ''ABItemForX'',
                is_required = False, is_array = True, description = []\<rparr>,
               \<lparr>name = ''K'', python_name = ''k'', type_str = ''str'',
                is_required = False, is_array = False, description = []\<rparr>]\<rparr>,
          \<lparr>model_name = ''ABItemForX'',
            model_fields =
              [\<lparr>name = ''C'', python_name = ''c'', type_str = ''str'',
                is_required = False, is_array = False, description = []\<rparr>]\<rparr>,
          \<lparr>model_name = ''XRequest'',
            model_fields =
              [\<lparr>name = ''A'', python_name = ''a'', type_str = ''AForX'',
                is_required = False, is_array = False, description = []\<rparr>]\<rparr>]"
  by code_simp

end
